theory Spec2Isabelle
  imports Main
begin

section \<open>Python values used by the generator\<close>

text \<open>
  The generator (scripts/gen.py) is a Python script.  Strings are modelled as
  \<open>string\<close>: a character is a code point below 256, so the strings of the model are
  the Python strings written in Latin-1.  Python integers are \<open>int\<close>, and every
  exception the script can raise is a value of the type \<open>error\<close>; a computation that
  may raise returns \<open>error + 'a\<close> with \<open>Inl\<close> for the exception.
\<close>

datatype error =
  AssertionError | IndexError | ValueError | RuntimeError | KeyError | AttributeError
  | NameError | ParseError | JSONError

definition rbind :: "error + 'a \<Rightarrow> ('a \<Rightarrow> error + 'b) \<Rightarrow> error + 'b" where
  "rbind m f = (case m of Inl e \<Rightarrow> Inl e | Inr x \<Rightarrow> f x)"

text \<open>Python's \<open>s[a:b]\<close> on a string, negative indices counting from the end.\<close>

definition py_slice :: "string \<Rightarrow> int \<Rightarrow> int \<Rightarrow> string" where
  "py_slice s a b =
     (let n = int (length s);
          lo = (if a < 0 then max 0 (a + n) else min a n);
          hi = (if b < 0 then max 0 (b + n) else min b n)
      in take (nat (hi - lo)) (drop (nat lo) s))"

text \<open>\<open>sep.join(xs)\<close>.\<close>

fun join :: "string \<Rightarrow> string list \<Rightarrow> string" where
  "join sep [] = []"
| "join sep [x] = x"
| "join sep (x # y # ys) = x @ sep @ join sep (y # ys)"

definition startswith :: "string \<Rightarrow> string \<Rightarrow> bool" where
  "startswith s sub = (take (length sub) s = sub)"

text \<open>\<open>s.find(sub)\<close>: the least index at which \<open>sub\<close> occurs in \<open>s\<close>, or \<open>-1\<close>.\<close>

fun find_from :: "string \<Rightarrow> int \<Rightarrow> string \<Rightarrow> int" where
  "find_from sub i [] = (if sub = [] then i else - 1)"
| "find_from sub i (c # cs) =
     (if startswith (c # cs) sub then i else find_from sub (i + 1) cs)"

definition py_find :: "string \<Rightarrow> string \<Rightarrow> int" where
  "py_find s sub = find_from sub 0 s"

text \<open>
  \<open>s.replace(old, new)\<close> for a non-empty \<open>old\<close>: occurrences are replaced from the
  left and do not overlap.  The script only ever replaces non-empty literals; an empty
  \<open>old\<close> leaves the string as it is here.
\<close>

function py_replace :: "string \<Rightarrow> string \<Rightarrow> string \<Rightarrow> string" where
  "py_replace old new [] = []"
| "py_replace old new (c # cs) =
     (if old \<noteq> [] \<and> startswith (c # cs) old
      then new @ py_replace old new (drop (length old) (c # cs))
      else c # py_replace old new cs)"
  by pat_completeness auto
termination
  by (relation "measure (\<lambda>(old, new, s). length s)") auto

text \<open>
  \<open>s.split(sep)\<close> for a non-empty separator.  The second argument collects the
  characters of the piece being read, last one first.
\<close>

function split_acc :: "string \<Rightarrow> string \<Rightarrow> string \<Rightarrow> string list" where
  "split_acc sep acc [] = [rev acc]"
| "split_acc sep acc (c # cs) =
     (if sep \<noteq> [] \<and> startswith (c # cs) sep
      then rev acc # split_acc sep [] (drop (length sep) (c # cs))
      else split_acc sep (c # acc) cs)"
  by pat_completeness auto
termination
  by (relation "measure (\<lambda>(sep, acc, s). length s)") auto

definition py_split :: "string \<Rightarrow> string \<Rightarrow> string list" where
  "py_split s sep = split_acc sep [] s"

text \<open>
  The characters that Python's \<open>str.strip()\<close> removes and that \<open>\s\<close> matches in a
  regular expression on strings: tab, line feed, vertical tab, form feed, carriage
  return, the four separators 28 to 31, the space, and, above the 7-bit characters, the
  next-line control U+0085 and the no-break space U+00A0.
\<close>

definition isspace :: "char \<Rightarrow> bool" where
  "isspace c = (of_char c \<in> {9, 10, 11, 12, 13, 28, 29, 30, 31, 32, 133, 160 :: nat})"

definition py_strip :: "string \<Rightarrow> string" where
  "py_strip s = rev (dropWhile isspace (rev (dropWhile isspace s)))"

text \<open>\<open>str(n)\<close> for an integer.\<close>

function str_nat :: "nat \<Rightarrow> string" where
  "str_nat n = (if n < 10 then [''0123456789'' ! n] else str_nat (n div 10) @ [''0123456789'' ! (n mod 10)])"
  by pat_completeness auto
termination
  by (relation "measure id") auto

declare str_nat.simps [simp del]

definition str_int :: "int \<Rightarrow> string" where
  "str_int i = (if i < 0 then CHR ''-'' # str_nat (nat (- i)) else str_nat (nat i))"

text \<open>\<open>xs[i]\<close> on a list; a negative index counts from the end.\<close>

definition py_getitem :: "'a list \<Rightarrow> int \<Rightarrow> error + 'a" where
  "py_getitem xs i =
     (let n = int (length xs); j = (if i < 0 then i + n else i)
      in if 0 \<le> j \<and> j < n then Inr (xs ! nat j) else Inl IndexError)"

text \<open>A loop that calls a function which may raise on each element, in order.\<close>

fun rmap :: "('a \<Rightarrow> error + 'b) \<Rightarrow> 'a list \<Rightarrow> error + 'b list" where
  "rmap f [] = Inr []"
| "rmap f (x # xs) = rbind (f x) (\<lambda>y. rbind (rmap f xs) (\<lambda>ys. Inr (y # ys)))"

section \<open>Parse trees\<close>

text \<open>
  The parser is the library lark, run on the grammar \<open>_GRAMMAR\<close> of the script.  A
  parse tree is made of \<open>lark.lexer.Token\<close> leaves, which carry the terminal's name,
  the matched text and the 1-based columns of its first character and of the character
  after its last one, and of \<open>lark.tree.Tree\<close> nodes, which carry the rule's name and
  the list of children.
\<close>

record token =
  tok_type :: string
  tok_value :: string
  column :: int
  end_column :: int

datatype node = Token token | Tree string "node list"

text \<open>
  Equality of lark objects (\<open>==\<close>): two tokens are equal when their terminal and
  text are, two trees when their rule and children are; positions play no part.
\<close>

fun node_eq :: "node \<Rightarrow> node \<Rightarrow> bool"
  and nodes_eq :: "node list \<Rightarrow> node list \<Rightarrow> bool" where
  "node_eq (Token a) (Token b) = (tok_type a = tok_type b \<and> tok_value a = tok_value b)"
| "node_eq (Tree d cs) (Tree e ds) = (d = e \<and> nodes_eq cs ds)"
| "node_eq (Token a) (Tree e ds) = False"
| "node_eq (Tree d cs) (Token b) = False"
| "nodes_eq [] [] = True"
| "nodes_eq (c # cs) (d # ds) = (node_eq c d \<and> nodes_eq cs ds)"
| "nodes_eq [] (d # ds) = False"
| "nodes_eq (c # cs) [] = False"

definition list_get :: "'a list \<Rightarrow> nat \<Rightarrow> 'a option" where
  "list_get l n = (if n < length l then Some (l ! n) else None)"

fun first_match :: "node \<Rightarrow> error + int" where
  "first_match (Token t) = Inr (column t - 1)"
| "first_match (Tree d []) = Inl IndexError"
| "first_match (Tree d (c # cs)) = first_match c"

function last_match :: "node \<Rightarrow> error + int" where
  "last_match (Token t) = Inr (end_column t - 1)"
| "last_match (Tree d cs) = (if cs = [] then Inl IndexError else last_match (last cs))"
  by pat_completeness auto
termination
proof (relation "measure size")
  fix d :: string and cs :: "node list"
  assume "cs \<noteq> []"
  then have "last cs \<in> set cs" by simp
  then have "size (last cs) \<le> size_list size cs" by (rule size_list_estimation') simp
  then show "(last cs, Tree d cs) \<in> measure size" by simp
qed simp

text \<open>\<open>for_every_token\<close> visits the tokens of a tree from left to right.\<close>

fun tokens_of :: "node \<Rightarrow> token list" where
  "tokens_of (Token t) = [t]"
| "tokens_of (Tree d cs) = concat (map tokens_of cs)"

definition for_every_token :: "node \<Rightarrow> ('s \<Rightarrow> token \<Rightarrow> 's) \<Rightarrow> 's \<Rightarrow> 's" where
  "for_every_token t fn s = foldl fn s (tokens_of t)"

text \<open>The same loop where the callback assigns to the visited token's fields.\<close>

fun map_tokens :: "(token \<Rightarrow> token) \<Rightarrow> node \<Rightarrow> node" where
  "map_tokens f (Token t) = Token (f t)"
| "map_tokens f (Tree d cs) = Tree d (map (map_tokens f) cs)"

definition typed_child :: "node \<Rightarrow> nat \<Rightarrow> string \<Rightarrow> error + node" where
  "typed_child t n ttype =
     (case t of
        Token _ \<Rightarrow> Inl AssertionError
      | Tree d cs \<Rightarrow>
          if \<not> n < length cs then Inl AssertionError
          else (case cs ! n of
                  Token _ \<Rightarrow> Inl AssertionError
                | Tree e ds \<Rightarrow> if e = ttype then Inr (Tree e ds) else Inl AssertionError))"

subsection \<open>Queries on type and parameter trees\<close>

definition is_core_type :: "node \<Rightarrow> bool" where
  "is_core_type c = (case c of Token _ \<Rightarrow> False | Tree d _ \<Rightarrow> d = ''core_type'')"

definition type_core :: "node \<Rightarrow> error + string" where
  "type_core t =
     (case t of
        Token _ \<Rightarrow> Inl AssertionError
      | Tree d cs \<Rightarrow>
          (case find is_core_type cs of
             None \<Rightarrow> Inl RuntimeError
           | Some (Token _) \<Rightarrow> Inl RuntimeError
           | Some (Tree e []) \<Rightarrow> Inl IndexError
           | Some (Tree e (Token k # _)) \<Rightarrow> Inr (tok_value k)
           | Some (Tree e (Tree f ts # _)) \<Rightarrow>
               if f \<noteq> ''template'' then Inl AssertionError
               else (case ts of
                       [] \<Rightarrow> Inl IndexError
                     | Token k # _ \<Rightarrow> Inr (tok_value k)
                     | Tree _ _ # _ \<Rightarrow> Inl AttributeError)))"

definition type_is_const :: "node \<Rightarrow> error + bool" where
  "type_is_const t =
     (case t of
        Token _ \<Rightarrow> Inl AssertionError
      | Tree d [] \<Rightarrow> Inl IndexError
      | Tree d (Token k # _) \<Rightarrow> Inr (tok_value k = ''const'')
      | Tree d (Tree _ _ # _) \<Rightarrow> Inr False)"

definition type_is_refptr :: "node \<Rightarrow> string \<Rightarrow> error + bool" where
  "type_is_refptr t kind =
     (case t of
        Token _ \<Rightarrow> Inl AssertionError
      | Tree d cs \<Rightarrow>
          if cs = [] then Inl IndexError
          else (case last cs of
                  Token _ \<Rightarrow> Inr False
                | Tree e ds \<Rightarrow>
                    if e \<noteq> ''refspec'' then Inr False
                    else (case ds of
                            [] \<Rightarrow> Inl IndexError
                          | Token k # _ \<Rightarrow> Inr (tok_value k = kind)
                          | Tree _ _ # _ \<Rightarrow> Inr False)))"

text \<open>
  \<open>extract_list\<close> flattens a right-nested list rule (\<open>params\<close>, \<open>typelist\<close>) of
  the reduced tree; the result is the list it appends to.
\<close>

fun extract_list :: "node \<Rightarrow> error + node list" where
  "extract_list (Token t) = Inl AssertionError"
| "extract_list (Tree d []) = Inl IndexError"
| "extract_list (Tree d [a]) = Inr [a]"
| "extract_list (Tree d [a, Token t]) = Inr [a]"
| "extract_list (Tree d [a, Tree e cs]) =
     (if e = d then rbind (extract_list (Tree e cs)) (\<lambda>l. Inr (a # l)) else Inr [a])"
| "extract_list (Tree d (a # b # c # cs)) = Inr [a]"

definition get_template_type_list :: "node \<Rightarrow> error + node list" where
  "get_template_type_list t =
     (case t of
        Token _ \<Rightarrow> Inl AssertionError
      | Tree d cs \<Rightarrow>
          if cs = [] then Inl NameError
          else (case (case find is_core_type cs of Some c \<Rightarrow> c | None \<Rightarrow> last cs) of
                  Token _ \<Rightarrow> Inl AttributeError
                | Tree e [] \<Rightarrow> Inl IndexError
                | Tree e (Token _ # _) \<Rightarrow> Inl AssertionError
                | Tree e (Tree f ts # _) \<Rightarrow>
                    if f \<noteq> ''template'' then Inl AssertionError
                    else rbind (py_getitem ts 1) extract_list))"

definition get_parameters :: "node \<Rightarrow> error + node list" where
  "get_parameters t =
     (case t of
        Token _ \<Rightarrow> Inl AssertionError
      | Tree d cs \<Rightarrow>
          rbind (py_getitem cs 2)
            (\<lambda>c. case c of
                   Token _ \<Rightarrow> Inl AssertionError
                 | Tree e ds \<Rightarrow> if e = ''params'' then extract_list c else Inl AssertionError))"

definition param_name :: "node \<Rightarrow> error + string" where
  "param_name t =
     (case t of
        Token _ \<Rightarrow> Inl AssertionError
      | Tree d cs \<Rightarrow>
          rbind (py_getitem cs 1)
            (\<lambda>c. case c of
                   Token _ \<Rightarrow> Inl AssertionError
                 | Tree e ds \<Rightarrow>
                     if e \<noteq> ''param_name'' then Inl AssertionError
                     else (case ds of
                             [] \<Rightarrow> Inl IndexError
                           | Token k # _ \<Rightarrow> Inr (tok_value k)
                           | Tree _ _ # _ \<Rightarrow> Inl AssertionError)))"

definition param_type :: "node \<Rightarrow> error + node" where
  "param_type t =
     (case t of
        Token _ \<Rightarrow> Inl AssertionError
      | Tree d [] \<Rightarrow> Inl IndexError
      | Tree d (Token _ # _) \<Rightarrow> Inl AssertionError
      | Tree d (Tree e ds # _) \<Rightarrow> Inr (Tree e ds))"

section \<open>The span emitter\<close>

text \<open>
  \<open>StringEmit\<close> holds the source string \<open>sref\<close>, the text emitted so far \<open>sval\<close>, and
  the position \<open>pos\<close> in the source up to which text has been consumed, \<open>-1\<close> when no
  position is tracked.
\<close>

record StringEmit =
  sref :: string
  sval :: string
  pos :: int

definition StringEmit_init :: "string \<Rightarrow> StringEmit" where
  "StringEmit_init s = \<lparr>sref = s, sval = [], pos = - 1\<rparr>"

definition advance :: "StringEmit \<Rightarrow> token \<Rightarrow> StringEmit" where
  "advance e t =
     (let start = column t - 1;
          fin = end_column t - 1;
          p = (if pos e \<ge> 0 then pos e else start);
          sv = (if start > p then sval e @ py_slice (sref e) p start else sval e)
      in e\<lparr>sval := sv @ tok_value t, pos := fin\<rparr>)"

definition skip :: "StringEmit \<Rightarrow> node \<Rightarrow> error + StringEmit" where
  "skip e t =
     (if pos e \<ge> 0 then rbind (last_match t) (\<lambda>p. Inr (e\<lparr>pos := p\<rparr>))
      else Inr (e\<lparr>pos := - 1\<rparr>))"

definition append_str :: "StringEmit \<Rightarrow> string \<Rightarrow> StringEmit" where
  "append_str e s = e\<lparr>sval := sval e @ s, pos := - 1\<rparr>"

text \<open>
  \<open>emit_string\<close>: the decision function \<open>emit_fn\<close> gives, for a node, a positive
  number (emit every token below it), zero (emit a token, descend into a tree) or a
  negative number (skip it).
\<close>

fun emit_string :: "node \<Rightarrow> StringEmit \<Rightarrow> (node \<Rightarrow> int) \<Rightarrow> error + StringEmit"
  and emit_children :: "node list \<Rightarrow> StringEmit \<Rightarrow> (node \<Rightarrow> int) \<Rightarrow> error + StringEmit" where
  "emit_string (Token k) e emit_fn =
     (if emit_fn (Token k) > 0 then Inr (for_every_token (Token k) advance e)
      else if emit_fn (Token k) = 0 then Inr (advance e k)
      else skip e (Token k))"
| "emit_string (Tree d cs) e emit_fn =
     (if emit_fn (Tree d cs) > 0 then Inr (for_every_token (Tree d cs) advance e)
      else if emit_fn (Tree d cs) = 0 then emit_children cs e emit_fn
      else skip e (Tree d cs))"
| "emit_children [] e emit_fn = Inr e"
| "emit_children (c # cs) e emit_fn =
     rbind (emit_string c e emit_fn) (\<lambda>e'. emit_children cs e' emit_fn)"

definition rewrite_sig :: "node \<Rightarrow> string \<Rightarrow> (node \<Rightarrow> int) \<Rightarrow> error + string" where
  "rewrite_sig tree orig_sig emit_fn =
     rbind (emit_string tree (StringEmit_init orig_sig) emit_fn) (\<lambda>e. Inr (sval e))"

section \<open>Signature projections\<close>

text \<open>
  The two parsers \<open>_PARSER\<close> (reduced tree) and \<open>_XPARSER\<close> (every token kept), the
  JSON decoder and \<open>string.Template\<close> belong to libraries; the functions that call them
  take them from a record.  A JSON object is read as a map from its keys to its string
  values.
\<close>

record library =
  PARSER_parse :: "string \<Rightarrow> error + node"
  XPARSER_parse :: "string \<Rightarrow> error + node"
  json_loads :: "string \<Rightarrow> error + (string \<Rightarrow> string option)"
  Template_substitute :: "string \<Rightarrow> (string \<Rightarrow> string option) \<Rightarrow> error + string"

definition TYPE_NSMAP :: "string \<Rightarrow> string option" where
  "TYPE_NSMAP = map_of
     [(''Tensor'', ''at::Tensor''),
      (''TensorList'', ''at::TensorList''),
      (''Scalar'', ''at::Scalar''),
      (''Storage'', ''at::Storage''),
      (''IntList'', ''at::IntList''),
      (''IntArrayRef'', ''at::IntArrayRef''),
      (''ArrayRef'', ''at::ArrayRef''),
      (''Generator'', ''at::Generator''),
      (''Layout'', ''at::Layout''),
      (''ScalarType'', ''at::ScalarType''),
      (''TensorOptions'', ''at::TensorOptions''),
      (''SparseTensorRef'', ''at::SparseTensorRef''),
      (''Device'', ''c10::Device''),
      (''optional'', ''c10::optional''),
      (''MemoryFormat'', ''at::MemoryFormat''),
      (''QScheme'', ''at::QScheme''),
      (''ConstQuantizerPtr'', ''at::ConstQuantizerPtr''),
      (''Dimname'', ''at::Dimname''),
      (''DimnameList'', ''at::DimnameList'')]"

text \<open>The decision function that emits everything (\<open>lambda x: 0\<close>).\<close>

definition emit_all :: "node \<Rightarrow> int" where
  "emit_all t = 0"

definition rewrite_token :: "(string \<Rightarrow> string option) \<Rightarrow> token \<Rightarrow> token" where
  "rewrite_token tmap t =
     (if tok_type t = ''TNAME''
      then (case tmap (tok_value t) of None \<Rightarrow> t | Some new_type \<Rightarrow> t\<lparr>tok_value := new_type\<rparr>)
      else t)"

definition rewrite_signature_emit_fn :: "node \<Rightarrow> int" where
  "rewrite_signature_emit_fn t =
     (case t of Token _ \<Rightarrow> 0 | Tree d _ \<Rightarrow> if d = ''param_defval'' then - 1 else 0)"

definition rewrite_signature ::
  "library \<Rightarrow> string \<Rightarrow> (string \<Rightarrow> string option) \<Rightarrow> error + string" where
  "rewrite_signature lib sig tmap =
     rbind (XPARSER_parse lib sig)
       (\<lambda>xtree. rewrite_sig (map_tokens (rewrite_token tmap) xtree) sig rewrite_signature_emit_fn)"

definition create_stdfunc_sig_emit_fn :: "node \<Rightarrow> int" where
  "create_stdfunc_sig_emit_fn t =
     (case t of Token _ \<Rightarrow> 0 | Tree d _ \<Rightarrow> if d = ''param_name'' then - 1 else 0)"

definition create_stdfunc_sig :: "node \<Rightarrow> string \<Rightarrow> error + string" where
  "create_stdfunc_sig tree orig_sig =
     rbind (typed_child tree 0 ''type'') (\<lambda>rtype.
     rbind (emit_string rtype (StringEmit_init orig_sig) create_stdfunc_sig_emit_fn) (\<lambda>e1.
     rbind (typed_child tree 3 ''params'') (\<lambda>params.
     rbind (emit_string params (append_str e1 ''('') create_stdfunc_sig_emit_fn) (\<lambda>e2.
     Inr (sval (append_str e2 '')''))))))"

definition create_map_sig_emit_fn :: "node \<Rightarrow> int" where
  "create_map_sig_emit_fn t =
     (case t of
        Token k \<Rightarrow> if tok_type k \<in> set [''CONST'', ''REF'', ''PTR''] then - 1 else 0
      | Tree d _ \<Rightarrow> if d \<in> set [''param_name'', ''param_defval''] then - 1 else 0)"

definition create_map_sig :: "node \<Rightarrow> string \<Rightarrow> error + string" where
  "create_map_sig tree orig_sig =
     rbind (typed_child tree 1 ''fnname'') (\<lambda>fnname.
     rbind (emit_string fnname (StringEmit_init orig_sig) create_map_sig_emit_fn) (\<lambda>e1.
     rbind (typed_child tree 3 ''params'') (\<lambda>params.
     rbind (emit_string params (append_str e1 ''('') create_map_sig_emit_fn) (\<lambda>e2.
     rbind (typed_child tree 0 ''type'') (\<lambda>rtype.
     rbind (emit_string rtype (append_str e2 '') -> '') create_map_sig_emit_fn) (\<lambda>e3.
     Inr (sval e3)))))))"

definition get_mapsig_key :: "string \<Rightarrow> string" where
  "get_mapsig_key mapsig = py_replace '' '' [] mapsig"

text \<open>\<open>get_function_signature\<close> returns the signature, the name and the qualified name.\<close>

definition get_function_signature ::
  "node \<Rightarrow> string \<Rightarrow> (string \<Rightarrow> string) \<Rightarrow> error + (string \<times> string \<times> string)" where
  "get_function_signature t orig_sig namefn =
     rbind (typed_child t 0 ''type'') (\<lambda>rtype.
     rbind (emit_string rtype (StringEmit_init orig_sig) emit_all) (\<lambda>e1.
     rbind (typed_child t 1 ''fnname'') (\<lambda>fn.
     rbind (case fn of
              Tree _ (Token k # _) \<Rightarrow> Inr (tok_value k)
            | Tree _ (Tree _ _ # _) \<Rightarrow> Inl AttributeError
            | _ \<Rightarrow> Inl IndexError) (\<lambda>fnname.
     rbind (typed_child t 3 ''params'') (\<lambda>params.
     rbind (emit_string params (append_str e1 ('' '' @ namefn fnname @ ''('')) emit_all) (\<lambda>e2.
     Inr (sval (append_str e2 '')''), fnname, namefn fnname)))))))"

definition get_return_type_str :: "node \<Rightarrow> string \<Rightarrow> error + string" where
  "get_return_type_str t orig_sig =
     (case t of
        Token _ \<Rightarrow> Inl AssertionError
      | Tree d cs \<Rightarrow>
          rbind (py_getitem cs 1)
            (\<lambda>fname. case fname of
                   Token _ \<Rightarrow> Inl AssertionError
                 | Tree e ds \<Rightarrow>
                     if e \<noteq> ''fnname'' then Inl AssertionError
                     else (case ds of
                             [] \<Rightarrow> Inl IndexError
                           | Token k # _ \<Rightarrow> Inr (py_slice orig_sig 0 (column k - 2))
                           | Tree _ _ # _ \<Rightarrow> Inl AssertionError)))"

section \<open>Policy tables\<close>

text \<open>
  \<open>FuncOpts\<close> is a named tuple all of whose fields default to \<open>None\<close>.
\<close>

record FuncOpts =
  ref_param :: "string option"
  device_param :: "string option"
  wparams :: "string list option"
  outfn_template :: "string option"
  outfn_name :: "string option"
  shape_check_indices :: "(int \<times> int) list option"

definition FuncOpts_default :: FuncOpts where
  "FuncOpts_default =
     \<lparr>ref_param = None, device_param = None, wparams = None, outfn_template = None,
      outfn_name = None, shape_check_indices = None\<rparr>"

definition FN_BLACKLIST :: "string set" where
  "FN_BLACKLIST = {}"

definition FN_AUTOGRAD_XLA :: "string set" where
  "FN_AUTOGRAD_XLA =
     {''max_pool2d(Tensor, IntArrayRef, IntArrayRef, IntArrayRef, IntArrayRef, bool) -> Tensor'',
      ''max_pool3d(Tensor, IntArrayRef, IntArrayRef, IntArrayRef, IntArrayRef, bool) -> Tensor''}"

text \<open>
  A regular expression of a table is represented by the predicate "\<open>re.match\<close>
  succeeds on this string".  The only one is \<open>[^(]*cudnn\<close>: some occurrence of
  \<open>cudnn\<close> has no opening parenthesis before it.
\<close>

definition re_match_cudnn :: "string \<Rightarrow> bool" where
  "re_match_cudnn s = (py_find (takeWhile (\<lambda>c. c \<noteq> CHR ''('') s) ''cudnn'' \<ge> 0)"

definition FN_BLACKLIST_REGEX :: "(string \<Rightarrow> bool) list" where
  "FN_BLACKLIST_REGEX = [re_match_cudnn]"

definition FN_OUT :: "string \<Rightarrow> FuncOpts option" where
  "FN_OUT = map_of (map (\<lambda>n. (n, FuncOpts_default))
     [''abs_out'', ''add_out'', ''acos_out'', ''acosh_out'', ''asin_out'', ''asinh_out'',
      ''atan_out'', ''atan2_out'', ''atanh_out'', ''baddbmm_out'', ''bernoulli_out'',
      ''binary_cross_entropy_out'', ''binary_cross_entropy_backward_out'', ''clamp_out'',
      ''div_out'', ''gather_out'', ''ger_out'', ''hardsigmoid_out'', ''kthvalue_out'',
      ''index_select_out'', ''inverse_out'', ''log_out'', ''masked_select_out'',
      ''maximum_out'', ''minimum_out'', ''pow_out'', ''prod_out'', ''nonzero_out'',
      ''round_out'', ''normal_out'', ''std_out'', ''take_out'', ''topk_out'', ''var_out''])"

definition FN_OUT_REGEX :: "((string \<Rightarrow> bool) \<times> FuncOpts) list" where
  "FN_OUT_REGEX = []"

definition remap_to :: "string \<Rightarrow> FuncOpts" where
  "remap_to f = FuncOpts_default\<lparr>outfn_name := Some f\<rparr>"

definition remap_checked :: "string \<Rightarrow> FuncOpts" where
  "remap_checked f = FuncOpts_default\<lparr>outfn_name := Some f, shape_check_indices := Some [(0, 1)]\<rparr>"

definition FN_REMAP :: "string \<Rightarrow> FuncOpts option" where
  "FN_REMAP = map_of
     [(''_th_eq(Tensor, Scalar) -> Tensor'', remap_to ''AtenXlaType::eq''),
      (''_th_eq(Tensor, Tensor) -> Tensor'', remap_to ''AtenXlaType::eq''),
      (''_th_ge(Tensor, Scalar) -> Tensor'', remap_to ''AtenXlaType::ge''),
      (''_th_ge(Tensor, Tensor) -> Tensor'', remap_to ''AtenXlaType::ge''),
      (''_th_gt(Tensor, Scalar) -> Tensor'', remap_to ''AtenXlaType::gt''),
      (''_th_gt(Tensor, Tensor) -> Tensor'', remap_to ''AtenXlaType::gt''),
      (''_th_le(Tensor, Scalar) -> Tensor'', remap_to ''AtenXlaType::le''),
      (''_th_le(Tensor, Tensor) -> Tensor'', remap_to ''AtenXlaType::le''),
      (''_th_lt(Tensor, Scalar) -> Tensor'', remap_to ''AtenXlaType::lt''),
      (''_th_lt(Tensor, Tensor) -> Tensor'', remap_to ''AtenXlaType::lt''),
      (''_th_ne(Tensor, Scalar) -> Tensor'', remap_to ''AtenXlaType::ne''),
      (''_th_ne(Tensor, Tensor) -> Tensor'', remap_to ''AtenXlaType::ne''),
      (''s__th_and(Tensor, Tensor) -> Tensor'', remap_checked ''AtenXlaType::__and__''),
      (''s__th_or(Tensor, Tensor) -> Tensor'', remap_checked ''AtenXlaType::__or__''),
      (''s__th_eq(Tensor, Tensor) -> Tensor'', remap_checked ''AtenXlaType::eq'')]"

definition XLA_FUNCTIONS :: "string \<Rightarrow> string option" where
  "XLA_FUNCTIONS = Map.empty"

definition CTOR_FUNCTIONS :: "string \<Rightarrow> string option" where
  "CTOR_FUNCTIONS = map_of (map (\<lambda>n. (n, ''.device(at::DeviceType::CPU)''))
     [''empty'', ''linspace'', ''logspace'', ''rand'', ''rand_like'', ''randn'',
      ''randn_like'', ''randint'', ''randint_like'', ''randperm_out'', ''scalar_tensor''])"

definition FUNCTION_OPTIONS :: "string \<Rightarrow> FuncOpts option" where
  "FUNCTION_OPTIONS = map_of
     [(''slice(Tensor, int64_t, int64_t, int64_t, int64_t) -> Tensor'',
       FuncOpts_default\<lparr>wparams := Some [''self'']\<rparr>)]"

definition RESULT_NAME :: string where
  "RESULT_NAME = ''x_result''"

text \<open>The truth value of an optional string: \<open>None\<close> and the empty string are false.\<close>

definition truthy :: "string option \<Rightarrow> bool" where
  "truthy x = (case x of None \<Rightarrow> False | Some s \<Rightarrow> s \<noteq> [])"

definition is_blacklisted_fn :: "string \<Rightarrow> string \<Rightarrow> bool" where
  "is_blacklisted_fn fname mapsig =
     (if fname \<in> FN_BLACKLIST \<or> mapsig \<in> FN_BLACKLIST then True
      else list_ex (\<lambda>frx. frx fname \<or> frx mapsig) FN_BLACKLIST_REGEX)"

definition get_outfn_options :: "string \<Rightarrow> string \<Rightarrow> FuncOpts option" where
  "get_outfn_options fname mapsig =
     (case FN_OUT fname of
        Some fnopts \<Rightarrow> Some fnopts
      | None \<Rightarrow>
          (case FN_OUT mapsig of
             Some fnopts \<Rightarrow> Some fnopts
           | None \<Rightarrow> map_option snd (find (\<lambda>(frx, fnopts). frx fname \<or> frx mapsig) FN_OUT_REGEX)))"

definition get_remapfn_options :: "string \<Rightarrow> string \<Rightarrow> FuncOpts option" where
  "get_remapfn_options fname mapsig =
     (case FN_REMAP fname of
        Some fnopts \<Rightarrow> Some fnopts
      | None \<Rightarrow> FN_REMAP mapsig)"

definition is_write_param :: "FuncOpts option \<Rightarrow> string \<Rightarrow> bool \<Rightarrow> bool" where
  "is_write_param fnopts pname defval =
     (case fnopts of
        None \<Rightarrow> defval
      | Some opts \<Rightarrow>
          (case wparams opts of
             None \<Rightarrow> defval
           | Some ws \<Rightarrow> if ws \<noteq> [] \<and> pname \<in> set ws then True else defval))"

text \<open>
  \<open>get_optional(fnopts, name, defval)\<close> for a string field: the default stands in
  when there are no options, and when the field is \<open>None\<close> or empty.
\<close>

definition get_optional ::
  "FuncOpts option \<Rightarrow> (FuncOpts \<Rightarrow> string option) \<Rightarrow> string option \<Rightarrow> string option" where
  "get_optional fnopts field defval =
     (case fnopts of
        None \<Rightarrow> defval
      | Some opts \<Rightarrow> if truthy (field opts) then field opts else defval)"

section \<open>Code synthesis\<close>

text \<open>The reference parameter (\<open>get_reference_param\<close>); the loop is \<open>ref_loop\<close>.\<close>

definition unwrapped_core_type :: "node \<Rightarrow> error + string" where
  "unwrapped_core_type ptype =
     rbind (type_core ptype) (\<lambda>cptype.
       if cptype = ''c10::optional''
       then rbind (get_template_type_list ptype) (\<lambda>l. rbind (py_getitem l 0) type_core)
       else Inr cptype)"

fun ref_loop ::
  "FuncOpts option \<Rightarrow> node list \<Rightarrow> node option \<Rightarrow> node option \<Rightarrow> error + node option" where
  "ref_loop fnopts [] rp other = Inr (case rp of Some p \<Rightarrow> Some p | None \<Rightarrow> other)"
| "ref_loop fnopts (p # ps) rp other =
     rbind (param_type p) (\<lambda>ptype.
     rbind (unwrapped_core_type ptype) (\<lambda>cptype.
     rbind (param_name p) (\<lambda>pname.
       if get_optional fnopts ref_param None = Some pname then Inr (Some p)
       else
         let other1 =
           (if other = None \<and>
               (cptype = ''TensorOptions'' \<or> cptype = ''TensorList'' \<or> cptype = ''Device'')
            then Some p else other)
         in if cptype \<noteq> ''Tensor'' then ref_loop fnopts ps rp other1
            else rbind (if rp = None
                        then (if pname = ''self'' then Inr True else type_is_const ptype)
                        else Inr False)
                   (\<lambda>b. ref_loop fnopts ps (if b then Some p else rp) (Some p)))))"

definition get_reference_param :: "node list \<Rightarrow> FuncOpts option \<Rightarrow> error + node option" where
  "get_reference_param params fnopts = ref_loop fnopts params None None"

text \<open>A loop with a state, whose body may raise.\<close>

fun rfold :: "('s \<Rightarrow> 'a \<Rightarrow> error + 's) \<Rightarrow> 'a list \<Rightarrow> 's \<Rightarrow> error + 's" where
  "rfold f [] s = Inr s"
| "rfold f (x # xs) s = rbind (f s x) (rfold f xs)"

text \<open>Formatting an optional string with \<open>{}\<close>: \<open>None\<close> is printed as such.\<close>

definition fmt :: "string option \<Rightarrow> string" where
  "fmt x = (case x of None \<Rightarrow> ''None'' | Some s \<Rightarrow> s)"

definition get_return_value ::
  "node \<Rightarrow> string \<Rightarrow> node option \<Rightarrow> string option \<Rightarrow> node option \<Rightarrow> FuncOpts option
     \<Rightarrow> error + string" where
  "get_return_value rtype rname param var rp fnopts =
     rbind (type_core rtype) (\<lambda>crtype.
     rbind (type_is_const rtype) (\<lambda>c.
     rbind (if c then Inr True else type_is_refptr rtype ''&'') (\<lambda>by_ref.
       if by_ref then (case param of None \<Rightarrow> Inl AssertionError | Some p \<Rightarrow> param_name p)
       else if crtype \<noteq> ''Tensor'' then Inr rname
       else rbind (case rp of None \<Rightarrow> Inl AssertionError | Some r \<Rightarrow> param_name r) (\<lambda>rn.
            Inr (''bridge::CreateXlaTensor('' @ rname @ '', bridge::GetXlaDevice(''
                 @ fmt (get_optional fnopts device_param (Some rn)) @ ''))'')))))"

definition get_tuple_return ::
  "node \<Rightarrow> string \<Rightarrow> string \<Rightarrow> node list \<Rightarrow> string list \<Rightarrow> node option \<Rightarrow> FuncOpts option
     \<Rightarrow> error + string" where
  "get_tuple_return rtype rtype_str rname params param_vars rp fnopts =
     rbind (get_template_type_list rtype) (\<lambda>types.
     rbind (rmap (\<lambda>(i, ttype).
              get_return_value ttype (''std::get<'' @ str_nat i @ ''>('' @ rname @ '')'')
                (list_get params i) (list_get param_vars i) rp fnopts)
            (zip [0 ..< length types] types)) (\<lambda>vals.
     Inr (rtype_str @ ''('' @ join '', '' vals @ '')'')))"

definition generate_entry_debug_code ::
  "node \<Rightarrow> string \<Rightarrow> node list \<Rightarrow> string option \<Rightarrow> error + string" where
  "generate_entry_debug_code t fname params fname_ns =
     rbind (rfold (\<lambda>code p.
              rbind (param_type p) (\<lambda>ptype.
              rbind (type_core ptype) (\<lambda>cptype.
              rbind (param_name p) (\<lambda>pname.
                Inr (if cptype = ''Tensor''
                     then code @ '' << \" '' @ pname @ ''=\" << '' @ pname @ ''.toString()''
                     else code)))))
            params
            (''  XLA_FN_TRACK(3);\<newline>''
             @ (case fname_ns of
                  None \<Rightarrow> []
                | Some ns \<Rightarrow> ''  XLA_COUNTER(\"'' @ ns @ ''::'' @ fname @ ''\", 1);\<newline>'')
             @ ''  TF_VLOG(3) << \"XLA '' @ fname @ '' :\"''))
       (\<lambda>code. Inr (code @ '';\<newline>''))"

definition generate_exit_debug_code :: string where
  "generate_exit_debug_code = []"

definition is_void_return :: "node \<Rightarrow> string \<Rightarrow> error + bool" where
  "is_void_return rtype ctype =
     (if ctype = ''void'' then rbind (type_is_refptr rtype ''*'') (\<lambda>b. Inr (\<not> b)) else Inr False)"

definition generate_return_stmt ::
  "node \<Rightarrow> string \<Rightarrow> string \<Rightarrow> string option \<Rightarrow> node list \<Rightarrow> string list \<Rightarrow> node option
     \<Rightarrow> FuncOpts option \<Rightarrow> error + string" where
  "generate_return_stmt t rtype_str fname rname params param_vars rp fnopts =
     (case t of
        Token _ \<Rightarrow> Inl AssertionError
      | Tree d cs \<Rightarrow>
          rbind (py_getitem cs 0) (\<lambda>rtype.
          rbind (type_core rtype) (\<lambda>ctype.
          rbind
            (if ctype = ''std::tuple''
             then rbind (get_tuple_return rtype rtype_str (fmt rname) params param_vars rp fnopts)
                    (\<lambda>r. Inr (Some r))
             else if ctype = ''std::vector''
             then rbind (case rp of None \<Rightarrow> Inl AssertionError | Some r \<Rightarrow> param_name r) (\<lambda>rn.
                    Inr (Some (''bridge::CreateXlaTensors('' @ fmt rname
                           @ '', bridge::GetXlaDevice(''
                           @ fmt (get_optional fnopts device_param (Some rn)) @ ''))'')))
             else if ctype = ''Tensor''
             then rbind (py_getitem params 0) (\<lambda>p0.
                  rbind (py_getitem param_vars 0) (\<lambda>v0.
                  rbind (get_return_value rtype (fmt rname) (Some p0) (Some v0) rp fnopts)
                    (\<lambda>r. Inr (Some r))))
             else rbind (is_void_return rtype ctype) (\<lambda>v.
                    Inr (if v then None else Some (fmt rname))))
            (\<lambda>retstr. Inr (case retstr of
                              None \<Rightarrow> []
                            | Some r \<Rightarrow> ''  return '' @ r @ '';\<newline>'')))))"

definition generate_result_assignment :: "node \<Rightarrow> string \<Rightarrow> error + string" where
  "generate_result_assignment t rname =
     (case t of
        Token _ \<Rightarrow> Inl AssertionError
      | Tree d cs \<Rightarrow>
          rbind (py_getitem cs 0) (\<lambda>rtype.
          rbind (type_core rtype) (\<lambda>ctype.
          rbind (is_void_return rtype ctype) (\<lambda>v.
            Inr (if v then [] else ''auto&& '' @ rname @ '' = '')))))"

text \<open>The function-existence text, and the call that a wrapper delegates to.\<close>

record Context =
  functions_data :: string

definition get_function :: "Context \<Rightarrow> string \<Rightarrow> string option" where
  "get_function ctx name =
     (if py_find (functions_data ctx) ('' '' @ name @ ''('') \<ge> 0 then Some (''at::'' @ name)
      else None)"

definition get_handling_function ::
  "Context \<Rightarrow> string \<Rightarrow> string option \<Rightarrow> string list \<Rightarrow> error + string" where
  "get_handling_function ctx fname xla_ref_param param_vars =
     (let function = (if truthy (XLA_FUNCTIONS fname) then XLA_FUNCTIONS fname
                      else get_function ctx fname)
      in if truthy function then Inr (fmt function @ ''('' @ join '', '' param_vars @ '')'')
         else (case xla_ref_param of
                 None \<Rightarrow> Inl ValueError
               | Some r \<Rightarrow>
                   if r \<in> set param_vars
                   then Inr (r @ ''.'' @ fname @ ''('' @ join '', '' (remove1 r param_vars) @ '')'')
                   else Inl ValueError))"

definition rewrite_tensor_options :: "string \<Rightarrow> string \<Rightarrow> string \<times> string" where
  "rewrite_tensor_options fname pname =
     (case CTOR_FUNCTIONS fname of
        None \<Rightarrow> ([], pname)
      | Some rw \<Rightarrow>
          (''  at::TensorOptions o_'' @ pname @ '' = '' @ pname @ rw @ '';\<newline>'', ''o_'' @ pname))"

definition get_param_names :: "node list \<Rightarrow> error + string list" where
  "get_param_names params = rmap param_name params"

definition expand_fn_template :: "library \<Rightarrow> string \<Rightarrow> string list \<Rightarrow> error + string" where
  "expand_fn_template lib tmpl param_vars =
     Template_substitute lib tmpl (map_of (zip (map str_nat [0 ..< length param_vars]) param_vars))"

definition create_call :: "string \<Rightarrow> string list \<Rightarrow> string" where
  "create_call fname param_vars = fname @ ''('' @ join '', '' param_vars @ '')''"

definition generate_shape_checks :: "string list \<Rightarrow> (int \<times> int) list \<Rightarrow> string \<Rightarrow> error + string" where
  "generate_shape_checks param_vars indices fname =
     rfold (\<lambda>code (i, j).
         rbind (py_getitem param_vars i) (\<lambda>vi.
         rbind (py_getitem param_vars j) (\<lambda>vj.
           Inr (code @ ''  XLA_CHECK('' @ vi @ ''.sizes() == '' @ vj
                @ ''.sizes()) << \"Operand shapes must be identical for '' @ fname
                @ '', mismatch for arguments '' @ str_int (i + 1) @ '' and '' @ str_int (j + 1)
                @ ''\";\<newline>''))))
       indices []"

definition generate_aten_remap ::
  "library \<Rightarrow> Context \<Rightarrow> string \<Rightarrow> string \<Rightarrow> node list \<Rightarrow> FuncOpts \<Rightarrow> error + string" where
  "generate_aten_remap lib ctx fname sig params fnopts =
     rbind (get_param_names params) (\<lambda>param_vars.
     rbind (case outfn_template fnopts of
              Some tmpl \<Rightarrow> expand_fn_template lib tmpl param_vars
            | None \<Rightarrow>
                if truthy (outfn_name fnopts) then Inr (create_call (fmt (outfn_name fnopts)) param_vars)
                else Inl AssertionError) (\<lambda>fcall.
     rbind (case shape_check_indices fnopts of
              None \<Rightarrow> Inr []
            | Some ix \<Rightarrow> generate_shape_checks param_vars ix fname) (\<lambda>checks.
     Inr (sig @ '' {\<newline>'' @ checks @ ''  return '' @ fcall @ '';\<newline>'' @ ''}''))))"

text \<open>
  \<open>re.match(r'(.*)_out$', fname)\<close>: the group is what stands before a final
  \<open>_out\<close>; the dot matches no line feed, and \<open>$\<close> also matches before a final one.
\<close>

definition match_out :: "string \<Rightarrow> string option" where
  "match_out fname =
     (let body = (if fname \<noteq> [] \<and> last fname = CHR 0x0A then butlast fname else fname);
          stem = take (length body - 4) body
      in if 4 \<le> length body \<and> drop (length body - 4) body = ''_out'' \<and> CHR 0x0A \<notin> set stem
         then Some stem else None)"

definition generate_outfn_result_copy :: "string \<Rightarrow> string \<Rightarrow> string" where
  "generate_outfn_result_copy dest src =
     ''  bridge::XlaUpdateTensors({'' @ dest @ ''}, {'' @ src @ ''}, {0});\<newline>''"

definition generate_aten_out ::
  "library \<Rightarrow> Context \<Rightarrow> node \<Rightarrow> node \<Rightarrow> string \<Rightarrow> string \<Rightarrow> string \<Rightarrow> node list \<Rightarrow> FuncOpts
     \<Rightarrow> error + string" where
  "generate_aten_out lib ctx tree rwxtree fname sig rwsig params fnopts =
     (case tree of
        Token _ \<Rightarrow> Inl AttributeError
      | Tree d cs \<Rightarrow>
          rbind (py_getitem cs 0) (\<lambda>rtype.
          rbind (type_core rtype) (\<lambda>ctype.
          rbind (if ctype = ''std::tuple''
                 then rbind (get_template_type_list rtype) (\<lambda>l. Inr (Some (length l)))
                 else Inr None) (\<lambda>num_outputs.
          rbind (generate_entry_debug_code tree fname params None) (\<lambda>debug.
          rbind (get_param_names params) (\<lambda>param_vars.
          rbind (case outfn_template fnopts of
                   Some tmpl \<Rightarrow> expand_fn_template lib tmpl param_vars
                 | None \<Rightarrow>
                     (case match_out fname of
                        None \<Rightarrow> Inl AssertionError
                      | Some stem \<Rightarrow>
                          let out_count = (case num_outputs of Some n \<Rightarrow> n | None \<Rightarrow> 1)
                          in Inr (create_call (''AtenXlaType::'' @ stem) (drop out_count param_vars))))
            (\<lambda>fcall.
          let tmp_result = fname @ ''_tmp'';
              code = sig @ '' {\<newline>'' @ debug @ ''  auto '' @ tmp_result @ '' = '' @ fcall @ '';\<newline>''
          in rbind
               (case num_outputs of
                  None \<Rightarrow>
                    rbind (py_getitem param_vars 0) (\<lambda>v0.
                      Inr (code @ generate_outfn_result_copy v0 tmp_result
                           @ generate_exit_debug_code @ ''  return '' @ v0 @ '';\<newline>''))
                | Some n \<Rightarrow>
                    rbind (rfold (\<lambda>c i.
                             rbind (py_getitem param_vars (int i)) (\<lambda>v.
                               Inr (c @ generate_outfn_result_copy v
                                      (''std::get<'' @ str_nat i @ ''>('' @ tmp_result @ '')''))))
                           [0 ..< n] code) (\<lambda>code1.
                    rbind (get_return_type_str rwxtree rwsig) (\<lambda>rtype_str.
                    rbind (rfold (\<lambda>c i.
                             rbind (py_getitem param_vars (int i)) (\<lambda>v.
                               Inr ((if i > 0 then c @ '', '' else c) @ v)))
                           [0 ..< n]
                           (code1 @ generate_exit_debug_code @ ''  return '' @ rtype_str @ ''('')) (\<lambda>code2.
                    Inr (code2 @ '');\<newline>'')))))
               (\<lambda>code. Inr (code @ ''}'')))))))))"

text \<open>\<open>TensorFetcher\<close> collects the tensors to convert in one batch.\<close>

record TensorFetcher =
  var_name :: string
  tvar_name :: string
  optvar_name :: string
  toptvar_name :: string
  tensors :: "string list"
  opt_tensors :: "string list"
  writeable :: "nat list"

definition TensorFetcher_init :: "string \<Rightarrow> TensorFetcher" where
  "TensorFetcher_init v =
     \<lparr>var_name = v, tvar_name = v @ ''_tensors'', optvar_name = v @ ''_opt'',
      toptvar_name = (v @ ''_opt'') @ ''_tensors'', tensors = [], opt_tensors = [],
      writeable = []\<rparr>"

definition TensorFetcher_add :: "TensorFetcher \<Rightarrow> string \<Rightarrow> bool \<Rightarrow> TensorFetcher \<times> string" where
  "TensorFetcher_add tf name w =
     (let tf1 = (if w then tf\<lparr>writeable := writeable tf @ [length (tensors tf)]\<rparr> else tf);
          tf2 = tf1\<lparr>tensors := tensors tf1 @ [name]\<rparr>
      in (tf2, var_name tf2 @ ''['' @ str_int (int (length (tensors tf2)) - 1) @ '']''))"

definition TensorFetcher_add_opt :: "TensorFetcher \<Rightarrow> string \<Rightarrow> TensorFetcher \<times> string" where
  "TensorFetcher_add_opt tf name =
     (let tf1 = tf\<lparr>opt_tensors := opt_tensors tf @ [name]\<rparr>
      in (tf1, optvar_name tf1 @ ''['' @ str_int (int (length (opt_tensors tf1)) - 1) @ '']''))"

definition generate_fetches :: "TensorFetcher \<Rightarrow> string" where
  "generate_fetches tf =
     ''  std::vector<at::Tensor> '' @ tvar_name tf @ '' = {'' @ join '', '' (tensors tf) @ ''};\<newline>''
     @ ''  auto '' @ var_name tf @ '' = bridge::XlaCreateTensorList('' @ tvar_name tf @ '');\<newline>''
     @ (if opt_tensors tf \<noteq> []
        then ''  std::vector<c10::optional<at::Tensor>> '' @ toptvar_name tf @ '' = {''
             @ join '', '' (opt_tensors tf) @ ''};\<newline>''
             @ ''  auto '' @ optvar_name tf @ '' = bridge::XlaCreateOptTensorList(''
             @ toptvar_name tf @ '');\<newline>''
        else [])"

definition generate_updates :: "TensorFetcher \<Rightarrow> string" where
  "generate_updates tf =
     (if writeable tf \<noteq> []
      then (let ivar_name = var_name tf @ ''_update_indices''
            in ''  std::vector<size_t> '' @ ivar_name @ '' = {''
               @ join '', '' (map str_nat (writeable tf)) @ ''};\<newline>''
               @ ''  bridge::XlaUpdateTensors('' @ tvar_name tf @ '', '' @ var_name tf @ '', ''
               @ ivar_name @ '');\<newline>'')
      else [])"

text \<open>
  The default bridging strategy.  The loop over the parameters carries the code
  emitted so far, the fetcher, the converted parameters and the converted reference
  parameter.
\<close>

record bridge_state =
  bs_code :: string
  bs_fetcher :: TensorFetcher
  bs_param_vars :: "string list"
  bs_xla_ref_param :: "string option"

definition bridge_param ::
  "FuncOpts option \<Rightarrow> string \<Rightarrow> node option \<Rightarrow> bridge_state \<Rightarrow> node \<Rightarrow> error + bridge_state" where
  "bridge_param fnopts fname rp st p =
     rbind (param_type p) (\<lambda>ptype.
     rbind (type_core ptype) (\<lambda>cptype.
     rbind (param_name p) (\<lambda>pname.
     rbind
       (if cptype = ''TensorList''
        then Inr (st\<lparr>bs_code := bs_code st @ ''  auto l_'' @ pname
                        @ '' = bridge::XlaCreateTensorList('' @ pname @ '');\<newline>'',
                      bs_param_vars := bs_param_vars st @ [''l_'' @ pname]\<rparr>)
        else if cptype = ''TensorOptions''
        then (case rewrite_tensor_options fname pname of
                (gcode, xname) \<Rightarrow>
                  Inr (st\<lparr>bs_code := bs_code st @ gcode,
                          bs_param_vars := bs_param_vars st @ [xname]\<rparr>))
        else if cptype = ''c10::optional''
        then rbind (get_template_type_list ptype) (\<lambda>l.
             rbind (py_getitem l 0) (\<lambda>t0.
             rbind (type_core t0) (\<lambda>wrapped_type.
               if wrapped_type = ''Tensor''
               then (case TensorFetcher_add_opt (bs_fetcher st) pname of
                       (tf, xname) \<Rightarrow>
                         Inr (st\<lparr>bs_fetcher := tf, bs_param_vars := bs_param_vars st @ [xname]\<rparr>))
               else Inr (st\<lparr>bs_param_vars := bs_param_vars st @ [pname]\<rparr>))))
        else if cptype \<noteq> ''Tensor''
        then Inr (st\<lparr>bs_param_vars := bs_param_vars st @ [pname]\<rparr>)
        else rbind (type_is_const ptype) (\<lambda>c.
               (case TensorFetcher_add (bs_fetcher st) pname (is_write_param fnopts pname (\<not> c)) of
                  (tf, xname) \<Rightarrow>
                    Inr (st\<lparr>bs_fetcher := tf, bs_param_vars := bs_param_vars st @ [xname]\<rparr>))))
       (\<lambda>st1.
          Inr (if (case rp of None \<Rightarrow> False | Some r \<Rightarrow> node_eq p r)
                  \<and> \<not> truthy (get_optional fnopts ref_param None)
               then st1\<lparr>bs_xla_ref_param := Some (last (bs_param_vars st1))\<rparr>
               else st1)))))"

definition target_options :: "string list" where
  "target_options = [''dtype'', ''layout'', ''device'', ''pin_memory'']"

definition generate_aten_to_xla ::
  "Context \<Rightarrow> node \<Rightarrow> node \<Rightarrow> string \<Rightarrow> string \<Rightarrow> string \<Rightarrow> node list \<Rightarrow> FuncOpts option
     \<Rightarrow> error + string" where
  "generate_aten_to_xla ctx tree rwxtree fname sig rwsig params fnopts =
     rbind (get_reference_param params fnopts) (\<lambda>rp.
     rbind (generate_entry_debug_code tree fname params (Some ''aten'')) (\<lambda>debug.
     rbind (case rp of None \<Rightarrow> Inr None | Some r \<Rightarrow> rbind (param_name r) (\<lambda>n. Inr (Some n))) (\<lambda>xrp.
     rbind (rfold (bridge_param fnopts fname rp) params
              \<lparr>bs_code = sig @ '' {\<newline>'' @ debug, bs_fetcher = TensorFetcher_init ''xlatens'',
               bs_param_vars = [], bs_xla_ref_param = xrp\<rparr>) (\<lambda>st.
     rbind (generate_result_assignment tree RESULT_NAME) (\<lambda>result_assign.
     rbind (get_handling_function ctx fname (bs_xla_ref_param st) (bs_param_vars st)) (\<lambda>call.
     let code0 = bs_code st @ generate_fetches (bs_fetcher st);
         code1 =
           (if set target_options \<subseteq> set (bs_param_vars st)
            then py_replace (join '', '' target_options) ''options''
                   (code0
                    @ ''  at::TensorOptions options = at::TensorOptions().device(device).layout(layout).pinned_memory(pin_memory).dtype(dtype);\<newline>''
                    @ ''  '' @ result_assign @ call @ '';\<newline>'')
            else code0 @ ''  '' @ result_assign @ call @ '';\<newline>'');
         code2 = code1 @ generate_updates (bs_fetcher st)
                 @ (if result_assign \<noteq> []
                    then ''  static_cast<void>('' @ RESULT_NAME
                         @ ''); // Avoid warnings in case not used\<newline>''
                    else [])
                 @ generate_exit_debug_code
     in rbind (get_return_type_str rwxtree rwsig) (\<lambda>rtype_str.
        rbind (generate_return_stmt tree rtype_str fname
                 (if result_assign \<noteq> [] then Some RESULT_NAME else None)
                 params (bs_param_vars st) rp fnopts) (\<lambda>ret.
        Inr (code2 @ ret @ ''}'')))))))))"

section \<open>Function records\<close>

record FuncDef =
  cpp_sig :: string
  fd_aten_sig :: string
  fd_dispatch :: bool
  fd_math :: bool

record FuncGen =
  tree :: node
  xtree :: node
  rwxtree :: node
  func :: string
  xfunc :: string
  code :: "string option"
  sig :: string
  rwsig :: string
  cppsig :: string
  funsig :: string
  mapsig :: string
  aten_sig :: string
  dispatch :: bool
  math :: bool

definition gen_fnname :: "string \<Rightarrow> string" where
  "gen_fnname x = ''AtenXlaTypeDefault::'' @ x"

definition get_xla_wrapper :: "library \<Rightarrow> FuncDef \<Rightarrow> Context \<Rightarrow> error + FuncGen" where
  "get_xla_wrapper lib fndef ctx =
     rbind (PARSER_parse lib (cpp_sig fndef)) (\<lambda>tree'.
     rbind (XPARSER_parse lib (cpp_sig fndef)) (\<lambda>xtree'.
     rbind (create_map_sig xtree' (cpp_sig fndef)) (\<lambda>mapsig'.
     rbind (rewrite_signature lib (cpp_sig fndef) TYPE_NSMAP) (\<lambda>rwsig'.
     rbind (XPARSER_parse lib rwsig') (\<lambda>rwxtree'.
     rbind (get_parameters tree') (\<lambda>params.
     rbind (get_function_signature rwxtree' rwsig' gen_fnname) (\<lambda>(sig', fname, xfname).
     rbind
       (if \<not> is_blacklisted_fn fname mapsig'
        then rbind
               (case get_outfn_options fname mapsig' of
                  Some ofnopts \<Rightarrow>
                    generate_aten_out lib ctx tree' rwxtree' fname sig' rwsig' params ofnopts
                | None \<Rightarrow>
                    (case get_remapfn_options fname mapsig' of
                       Some rfnopts \<Rightarrow> generate_aten_remap lib ctx fname sig' params rfnopts
                     | None \<Rightarrow>
                         generate_aten_to_xla ctx tree' rwxtree' fname sig' rwsig' params
                           (FUNCTION_OPTIONS mapsig')))
               (\<lambda>c. Inr (Some c))
        else Inr None) (\<lambda>code'.
     rbind (create_stdfunc_sig rwxtree' rwsig') (\<lambda>funsig'.
     Inr \<lparr>tree = tree', xtree = xtree', rwxtree = rwxtree', func = fname, xfunc = xfname,
          code = code', sig = cpp_sig fndef, rwsig = rwsig', cppsig = sig', funsig = funsig',
          mapsig = mapsig', aten_sig = fd_aten_sig fndef, dispatch = fd_dispatch fndef,
          math = fd_math fndef\<rparr>)))))))))"

section \<open>Reading the declarations and the overrides\<close>

text \<open>
  What the script prints on the error stream is kept as a list of messages; the text
  of a library exception is represented by the exception.
\<close>

datatype message =
  Error_parsing string error
  | Extracted nat nat
  | Function_overrides nat
  | Failed_to_generate_wrapper FuncDef error
  | Generated_wrappers nat
  | Missed_override string string

text \<open>
  A word character of a regular expression on strings (\<open>\w\<close>): the underscore and
  what \<open>str.isalnum\<close> accepts.  Below 256 these are the digits and letters of ASCII,
  the letters of Latin-1 (U+00AA, U+00B5, U+00BA, U+00C0 to U+00FF without the two
  signs U+00D7 and U+00F7), the superscript digits U+00B2, U+00B3, U+00B9 and the
  fractions U+00BC to U+00BE.
\<close>

definition isword :: "char \<Rightarrow> bool" where
  "isword c =
     (let n = (of_char c :: nat)
      in (48 \<le> n \<and> n \<le> 57) \<or> (65 \<le> n \<and> n \<le> 90) \<or> (97 \<le> n \<and> n \<le> 122) \<or> n = 95
         \<or> n = 170 \<or> n = 178 \<or> n = 179 \<or> n = 181 \<or> n = 185 \<or> n = 186
         \<or> (188 \<le> n \<and> n \<le> 190) \<or> (192 \<le> n \<and> n \<le> 214) \<or> (216 \<le> n \<and> n \<le> 246)
         \<or> 248 \<le> n)"

text \<open>
  \<open>re.search(r'\bw\b', s)\<close> for a word \<open>w\<close> of word characters: \<open>w\<close> occurs with no
  word character next to it.  The flag tells whether the character before is one.
\<close>

fun search_word :: "string \<Rightarrow> bool \<Rightarrow> string \<Rightarrow> bool" where
  "search_word w prev [] = False"
| "search_word w prev (c # cs) =
     ((\<not> prev \<and> startswith (c # cs) w
       \<and> (case drop (length w) (c # cs) of [] \<Rightarrow> True | d # _ \<Rightarrow> \<not> isword d))
      \<or> search_word w (isword c) cs)"

definition is_tensor_api :: "string \<Rightarrow> bool \<times> string" where
  "is_tensor_api fndef =
     (let fndef1 = py_replace ''at::'' [] fndef;
          fndef2 = py_replace ''c10::Device'' ''Device'' fndef1
      in (search_word ''Tensor'' False fndef2, fndef2))"

definition create_funcdef :: "library \<Rightarrow> string \<Rightarrow> string \<Rightarrow> error + FuncDef" where
  "create_funcdef lib fndef jdata =
     rbind (json_loads lib jdata) (\<lambda>fields.
       (case fields ''schema'' of
          None \<Rightarrow> Inl KeyError
        | Some schema \<Rightarrow>
            Inr \<lparr>cpp_sig = fndef, fd_aten_sig = schema,
                 fd_dispatch = ((case fields ''dispatch'' of None \<Rightarrow> ''False'' | Some v \<Rightarrow> v) = ''True''),
                 fd_math = ((case fields ''math'' of None \<Rightarrow> ''False'' | Some v \<Rightarrow> v) = ''True'')\<rparr>))"

text \<open>
  \<open>re.match(r'\s*([^\s].*); //\s+(.*)', line)\<close>: the first group starts at the first
  character that is not white space and runs, within the line, to the last \<open>; //\<close>
  that white space follows; the second group is what follows that white space, to the
  end of the line.
\<close>

definition match_declaration :: "string \<Rightarrow> (string \<times> string) option" where
  "match_declaration line =
     (case dropWhile isspace line of
        [] \<Rightarrow> None
      | c # r \<Rightarrow>
          (case find (\<lambda>k. startswith (drop k r) ''; //''
                           \<and> (case drop (k + 4) r of [] \<Rightarrow> False | d # _ \<Rightarrow> isspace d))
                  (rev [0 ..< Suc (length (takeWhile (\<lambda>x. x \<noteq> CHR 0x0A) r))]) of
             None \<Rightarrow> None
           | Some k \<Rightarrow>
               Some (c # take k r,
                     takeWhile (\<lambda>x. x \<noteq> CHR 0x0A) (dropWhile isspace (drop (k + 4) r)))))"

text \<open>
  \<open>extract_functions\<close>: one step for each line of the declaration source.  The state
  holds the function definitions, the errors and the messages printed.
\<close>

definition extract_line ::
  "library \<Rightarrow> FuncDef list \<times> (string \<times> error) list \<times> message list \<Rightarrow> string
     \<Rightarrow> FuncDef list \<times> (string \<times> error) list \<times> message list" where
  "extract_line lib st line =
     (case st of
        (functions, errors, out) \<Rightarrow>
          (case match_declaration line of
             None \<Rightarrow> st
           | Some (fndef, jdata) \<Rightarrow>
               (case rbind (XPARSER_parse lib fndef) (\<lambda>_. create_funcdef lib fndef jdata) of
                  Inr fd \<Rightarrow> (functions @ [fd], errors, out)
                | Inl e \<Rightarrow>
                    if fst (is_tensor_api fndef)
                    then (functions, errors @ [(fndef, e)], out @ [Error_parsing fndef e])
                    else st)))"

definition extract_functions ::
  "library \<Rightarrow> string list \<Rightarrow> FuncDef list \<times> (string \<times> error) list \<times> message list" where
  "extract_functions lib lines = foldl (extract_line lib) ([], [], []) lines"

text \<open>
  \<open>parse_local_overrides\<close>.  \<open>match_static\<close> is the group of \<open>static\s+(.*)\<close> on a
  stripped line, \<open>match_static_decl\<close> that of \<open>static\s+(.*);\<close>.
\<close>

definition match_static :: "string \<Rightarrow> string option" where
  "match_static line =
     (if startswith line ''static''
         \<and> (case drop 6 line of [] \<Rightarrow> False | c # _ \<Rightarrow> isspace c)
      then Some (takeWhile (\<lambda>x. x \<noteq> CHR 0x0A) (dropWhile isspace (drop 6 line)))
      else None)"

definition match_static_decl :: "string \<Rightarrow> string option" where
  "match_static_decl line =
     (case match_static line of
        None \<Rightarrow> None
      | Some body \<Rightarrow>
          if CHR '';'' \<in> set body
          then Some (rev (tl (dropWhile (\<lambda>x. x \<noteq> CHR '';'') (rev body))))
          else None)"

definition override_line :: "string list \<times> string option \<Rightarrow> string \<Rightarrow> string list \<times> string option" where
  "override_line st raw =
     (case st of
        (functions, fndef) \<Rightarrow>
          let line = py_strip raw
          in if \<not> truthy fndef
             then (case match_static_decl line of
                     Some g \<Rightarrow> (functions @ [g], fndef)
                   | None \<Rightarrow>
                       (case match_static line of
                          Some g \<Rightarrow> (functions, Some g)
                        | None \<Rightarrow> (functions, fndef)))
             else (let joined = fmt fndef @ '' '' @ line
                   in if joined \<noteq> [] \<and> last joined = CHR '';''
                      then (functions @ [butlast joined], None)
                      else (functions, Some joined)))"

text \<open>
  A dictionary keeps its keys in the order of their first insertion; assigning to a
  key that is present replaces its value in place.
\<close>

fun dict_set :: "('k \<times> 'v) list \<Rightarrow> 'k \<Rightarrow> 'v \<Rightarrow> ('k \<times> 'v) list" where
  "dict_set [] k v = [(k, v)]"
| "dict_set ((k', v') # d) k v = (if k' = k then (k, v) # d else (k', v') # dict_set d k v)"

definition override_entry ::
  "library \<Rightarrow> (string \<times> string) list \<Rightarrow> string \<Rightarrow> error + (string \<times> string) list" where
  "override_entry lib overrides fndef0 =
     (case is_tensor_api fndef0 of
        (is_tensor, fndef) \<Rightarrow>
          if is_tensor
          then rbind (XPARSER_parse lib fndef) (\<lambda>xtree.
               rbind (create_map_sig xtree fndef) (\<lambda>ms.
               Inr (dict_set overrides (get_mapsig_key ms) fndef)))
          else Inr overrides)"

definition parse_local_overrides :: "library \<Rightarrow> string list \<Rightarrow> error + (string \<times> string) list" where
  "parse_local_overrides lib lines =
     (case foldl override_line ([], None) lines of
        (functions, fndef) \<Rightarrow>
          if fndef \<noteq> None then Inl AssertionError
          else rfold (override_entry lib) functions [])"

section \<open>Registration\<close>

definition requires_registration :: "FuncGen \<Rightarrow> (string \<times> string) list \<Rightarrow> bool" where
  "requires_registration fgen overrides =
     (let requires_lowering = (dispatch fgen \<and> \<not> math fgen);
          has_xla_lowering = (get_mapsig_key (mapsig fgen) \<in> fst ` set overrides);
          has_autogradxla = (mapsig fgen \<in> FN_AUTOGRAD_XLA \<or> func fgen \<in> FN_AUTOGRAD_XLA)
      in requires_lowering \<or> has_xla_lowering \<or> has_autogradxla)"

definition generate_unboxed :: "string \<Rightarrow> string \<Rightarrow> string \<Rightarrow> error + string" where
  "generate_unboxed aten_sig' overload override_fn =
     rbind (py_getitem (py_split aten_sig' ''('') 0) (\<lambda>head.
     rbind (py_getitem (py_split head ''::'') 1) (\<lambda>name.
     Inr (''  m.impl_UNBOXED(\"'' @ name @ ''\", static_cast<'' @ overload @ ''>(&''
          @ override_fn @ ''));\<newline>'')))"

text \<open>
  \<open>generate_registrations\<close>: one step for each function record.  The state holds the
  text of the two registration blocks and the set of the keys bound to an override.
\<close>

definition register_function ::
  "(string \<times> string) list \<Rightarrow> string \<times> string \<times> string set \<Rightarrow> FuncGen
     \<Rightarrow> error + string \<times> string \<times> string set" where
  "register_function overrides st fgen =
     (case st of
        (aten_code, autogradxla_code, overridden) \<Rightarrow>
          if \<not> requires_registration fgen overrides then Inr st
          else
            let mapsig_key = get_mapsig_key (mapsig fgen);
                in_overrides = (mapsig_key \<in> fst ` set overrides);
                override_fn =
                  (if in_overrides then Some (''AtenXlaType::'' @ func fgen)
                   else if truthy (code fgen) then Some (xfunc fgen) else None);
                overridden1 = (if in_overrides then insert mapsig_key overridden else overridden)
            in if truthy override_fn
               then
                 let p = py_find (funsig fgen) ''('';
                     overload = py_slice (funsig fgen) 0 p @ '' (*)''
                                @ py_slice (funsig fgen) p (int (length (funsig fgen)))
                 in rbind (generate_unboxed (aten_sig fgen) overload (fmt override_fn)) (\<lambda>unboxed.
                      if mapsig fgen \<in> FN_AUTOGRAD_XLA
                      then Inr (aten_code, autogradxla_code @ unboxed, overridden1)
                      else Inr (aten_code @ unboxed, autogradxla_code, overridden1))
               else Inr (aten_code, autogradxla_code, overridden1))"

definition generate_registrations ::
  "FuncGen list \<Rightarrow> (string \<times> string) list \<Rightarrow> error + string \<times> string set" where
  "generate_registrations fgens overrides =
     rbind (rfold (register_function overrides) fgens
              (''TORCH_LIBRARY_IMPL(aten, XLA, m) {\<newline>'',
               ''TORCH_LIBRARY_IMPL(aten, AutogradXLA, m) {\<newline>'', {}))
       (\<lambda>(aten_code, autogradxla_code, overridden).
          Inr (aten_code @ ''\<newline>}\<newline>'' @ autogradxla_code @ ''\<newline>}\<newline>'', overridden))"

definition generate_functions :: "FuncGen list \<Rightarrow> (string \<times> string) list \<Rightarrow> string" where
  "generate_functions fgens overrides =
     foldl (\<lambda>c fgen.
         if truthy (code fgen) \<and> requires_registration fgen overrides
         then c @ fmt (code fgen) @ ''\<newline>\<newline>'' else c)
       [] fgens"

definition generate_class_functions :: "FuncGen list \<Rightarrow> (string \<times> string) list \<Rightarrow> string" where
  "generate_class_functions fgens overrides =
     foldl (\<lambda>c fgen.
         if truthy (code fgen) \<and> requires_registration fgen overrides
         then c @ ''  static '' @ rwsig fgen @ '';\<newline>'' else c)
       [] fgens"

text \<open>
  \<open>check_overrides\<close> returns whether no override was missed; the messages it prints
  are returned with it.
\<close>

definition check_override ::
  "string set \<Rightarrow> int \<times> message list \<Rightarrow> string \<times> string \<Rightarrow> int \<times> message list" where
  "check_override overridden st entry =
     (case st of
        (misses, out) \<Rightarrow>
          (case entry of
             (mapsig', cpp_sig') \<Rightarrow>
               if get_mapsig_key mapsig' \<notin> overridden
               then (misses + 1, out @ [Missed_override cpp_sig' mapsig'])
               else (misses, out)))"

definition check_overrides :: "(string \<times> string) list \<Rightarrow> string set \<Rightarrow> bool \<times> message list" where
  "check_overrides overrides overridden =
     (case foldl (check_override overridden) (0, []) overrides of
        (misses, out) \<Rightarrow> (misses = 0, out))"

section \<open>The run\<close>

definition H_HEADER :: "string \<Rightarrow> string \<Rightarrow> string" where
  "H_HEADER gen hfuncs =
     ''// Autogenerated file by '' @ gen @ ''. Do not edit directly!\<newline>\<newline>''
     @ ''#include <ATen/Tensor.h>\<newline>\<newline>''
     @ ''namespace torch_xla {\<newline>\<newline>''
     @ ''class AtenXlaTypeDefault {\<newline> public:\<newline>'' @ hfuncs @ ''\<newline>};\<newline>\<newline>''
     @ ''void RegisterAtenTypeFunctions();\<newline>\<newline>''
     @ ''}  // namespace torch_xla\<newline>''"

definition CPP_HEADER :: "string \<Rightarrow> string \<Rightarrow> string \<Rightarrow> string" where
  "CPP_HEADER gen funcs regs =
     ''// Autogenerated file by '' @ gen @ ''. Do not edit directly!\<newline>''
     @ ''#include \"torch_xla/csrc/aten_xla_type_default.h\"\<newline>\<newline>''
     @ ''#include <ATen/Context.h>\<newline>''
     @ ''#include <torch/library.h>\<newline>''
     @ ''#include <ATen/CPUGeneratorImpl.h>\<newline>\<newline>''
     @ ''#include \"tensorflow/compiler/xla/xla_client/debug_macros.h\"\<newline>''
     @ ''#include \"tensorflow/compiler/xla/xla_client/metrics.h\"\<newline>''
     @ ''#include \"tensorflow/compiler/xla/xla_client/tf_logging.h\"\<newline>''
     @ ''#include \"torch_xla/csrc/aten_xla_bridge.h\"\<newline>''
     @ ''#include \"torch_xla/csrc/aten_xla_type.h\"\<newline>''
     @ ''#include \"torch_xla/csrc/function_call_tracker.h\"\<newline>\<newline>''
     @ ''namespace torch_xla {\<newline>\<newline>'' @ funcs @ ''\<newline>\<newline>'' @ regs
     @ ''\<newline>}  // namespace torch_xla\<newline>''"

definition wrap_function ::
  "library \<Rightarrow> Context \<Rightarrow> FuncGen list \<times> message list \<Rightarrow> FuncDef \<Rightarrow> FuncGen list \<times> message list" where
  "wrap_function lib ctx st ts =
     (case st of
        (fgens, out) \<Rightarrow>
          (case get_xla_wrapper lib ts ctx of
             Inr fgen \<Rightarrow> (fgens @ [fgen], out)
           | Inl e \<Rightarrow> (fgens, out @ [Failed_to_generate_wrapper ts e])))"

text \<open>
  \<open>generate\<close>, on the lines of the override source and of the declaration source and
  on the function-existence text: the messages printed, and the text of the two
  output files (the header, then the definitions) unless the run is aborted.  Both
  texts end with the line feed that \<open>print\<close> adds.
\<close>

definition generate ::
  "library \<Rightarrow> string \<Rightarrow> string list \<Rightarrow> string list \<Rightarrow> string
     \<Rightarrow> message list \<times> (error + string \<times> string)" where
  "generate lib gen xlatype typedef functions =
     (case extract_functions lib typedef of
        (fndefs, errors, out0) \<Rightarrow>
          let out1 = out0 @ [Extracted (length fndefs) (length errors)]
          in if length errors \<noteq> 0 then (out1, Inl AssertionError)
             else
               (case parse_local_overrides lib xlatype of
                  Inl e \<Rightarrow> (out1, Inl e)
                | Inr overrides \<Rightarrow>
                    (case foldl (wrap_function lib \<lparr>functions_data = functions\<rparr>)
                            ([], out1 @ [Function_overrides (length overrides)]) fndefs of
                       (fgens, out2) \<Rightarrow>
                         let out3 = out2 @ [Generated_wrappers (length fgens)];
                             functions' = generate_functions fgens overrides;
                             hfunctions = generate_class_functions fgens overrides
                         in (case generate_registrations fgens overrides of
                               Inl e \<Rightarrow> (out3, Inl e)
                             | Inr (regs, overridden) \<Rightarrow>
                                 (case check_overrides overrides overridden of
                                    (ok, out4) \<Rightarrow>
                                      if \<not> ok then (out3 @ out4, Inl AssertionError)
                                      else (out3 @ out4,
                                            Inr (H_HEADER gen hfunctions @ ''\<newline>'',
                                                 CPP_HEADER gen functions' regs @ ''\<newline>'')))))))"

section \<open>Well-formed signatures and their parse trees\<close>

text \<open>
  The parsers are not part of the script; what is used of them is the grammar they are
  given and the positions they record.  A token of a terminal that the grammar names
  is labelled with that name; a token of a literal written inside a rule (such as the
  parentheses) is labelled with the literal in double quotes, as the grammar writes it;
  a tree is labelled with its rule.
\<close>

definition named_terminals :: "string list" where
  "named_terminals =
     [''TNAME'', ''CNAME'', ''CONST'', ''REF'', ''PTR'', ''NUMBER'', ''SIGNED_NUMBER'',
      ''HEXNUMBER'', ''ESCAPED_STRING'']"

definition anonymous :: "node \<Rightarrow> bool" where
  "anonymous n = (case n of Token k \<Rightarrow> tok_type k \<notin> set named_terminals | Tree _ _ \<Rightarrow> False)"

definition label :: "node \<Rightarrow> string" where
  "label n =
     (case n of
        Token k \<Rightarrow> if tok_type k \<in> set named_terminals then tok_type k
                   else ''\"'' @ tok_value k @ ''\"''
      | Tree d _ \<Rightarrow> d)"

text \<open>The rules of \<open>_GRAMMAR\<close>: the labels that the children of a tree may carry.\<close>

definition shape :: "string \<Rightarrow> string list \<Rightarrow> bool" where
  "shape d ls =
     (if d = ''start'' then ls = [''type'', ''fnname'', ''\"(\"'', ''params'', ''\")\"'']
      else if d = ''type''
      then ls = [''core_type''] \<or> ls = [''CONST'', ''core_type'']
           \<or> ls = [''core_type'', ''refspec''] \<or> ls = [''CONST'', ''core_type'', ''refspec'']
      else if d = ''fnname'' then ls = [''CNAME'']
      else if d = ''refspec'' then ls = [''REF''] \<or> ls = [''PTR'']
      else if d = ''core_type'' then ls = [''template''] \<or> ls = [''TNAME'']
      else if d = ''template'' then ls = [''TNAME'', ''\"<\"'', ''typelist'', ''\">\"'']
      else if d = ''typelist'' then ls = [''type''] \<or> ls = [''type'', ''\",\"'', ''typelist'']
      else if d = ''params'' then ls = [''param''] \<or> ls = [''param'', ''\",\"'', ''params'']
      else if d = ''param''
      then ls = [''type'', ''param_name''] \<or> ls = [''type'', ''param_name'', ''param_defval'']
      else if d = ''param_name'' then ls = [''CNAME'']
      else if d = ''param_defval'' then ls = [''\"=\"'', ''init_value'']
      else if d = ''init_value''
      then ls = [''\"true\"''] \<or> ls = [''\"false\"''] \<or> ls = [''\"{}\"''] \<or> ls = [''NUMBER'']
           \<or> ls = [''SIGNED_NUMBER''] \<or> ls = [''HEXNUMBER''] \<or> ls = [''ESCAPED_STRING'']
      else False)"

text \<open>
  The text of a token: \<open>TNAME\<close> is \<open>/[a-zA-Z0-9_:]+/\<close>, \<open>CNAME\<close> is made of the
  letters and digits of ASCII and the underscore, \<open>CONST\<close>, \<open>REF\<close> and \<open>PTR\<close> are
  fixed; the other named terminals match at least one character.
\<close>

definition cname_char :: "char \<Rightarrow> bool" where
  "cname_char c =
     (let n = (of_char c :: nat)
      in (48 \<le> n \<and> n \<le> 57) \<or> (65 \<le> n \<and> n \<le> 90) \<or> (97 \<le> n \<and> n \<le> 122) \<or> n = 95)"

definition tname_char :: "char \<Rightarrow> bool" where
  "tname_char c = (cname_char c \<or> c = CHR '':'')"

definition token_ok :: "token \<Rightarrow> bool" where
  "token_ok k =
     (if tok_type k = ''TNAME'' then tok_value k \<noteq> [] \<and> list_all tname_char (tok_value k)
      else if tok_type k = ''CNAME'' then tok_value k \<noteq> [] \<and> list_all cname_char (tok_value k)
      else if tok_type k = ''CONST'' then tok_value k = ''const''
      else if tok_type k = ''REF'' then tok_value k = ''&''
      else if tok_type k = ''PTR'' then tok_value k = ''*''
      else tok_value k \<noteq> [])"

fun conforms :: "node \<Rightarrow> bool" where
  "conforms (Token k) = token_ok k"
| "conforms (Tree d cs) = (shape d (map label cs) \<and> list_all conforms cs)"

text \<open>
  The positions: the tokens of a tree, from left to right, lie in the source \<open>S\<close> one
  after the other from position \<open>p\<close> on; each token's text is the text of the source
  between its columns, and only characters that satisfy \<open>gap\<close> stand before, between
  and after them.
\<close>

fun covers :: "(char \<Rightarrow> bool) \<Rightarrow> string \<Rightarrow> int \<Rightarrow> token list \<Rightarrow> bool" where
  "covers gap S p [] = (0 \<le> p \<and> p \<le> int (length S) \<and> list_all gap (drop (nat p) S))"
| "covers gap S p (k # ks) =
     (0 \<le> p \<and> p \<le> column k - 1 \<and> column k - 1 < end_column k - 1
      \<and> end_column k - 1 \<le> int (length S)
      \<and> list_all gap (py_slice S p (column k - 1))
      \<and> tok_value k = py_slice S (column k - 1) (end_column k - 1)
      \<and> covers gap S (end_column k - 1) ks)"

text \<open>
  The white space that the grammar ignores (\<open>WS\<close> of lark's common terminals): space,
  tab, form feed, carriage return, line feed.
\<close>

definition lark_ws :: "char \<Rightarrow> bool" where
  "lark_ws c = (c \<in> set [CHR '' '', CHR 0x09, CHR 0x0C, CHR 0x0D, CHR 0x0A])"

text \<open>
  \<open>derives gap S t\<close>: \<open>t\<close> is a tree of the grammar with every token kept, for the
  signature \<open>S\<close>, where the text between the tokens is made of \<open>gap\<close> characters.
  \<open>parse_of S t\<close> is the case of the ignored white space: \<open>t\<close> is what \<open>_XPARSER\<close>
  returns on a well-formed signature \<open>S\<close> (on one line, where columns are offsets).
\<close>

definition derives :: "(char \<Rightarrow> bool) \<Rightarrow> string \<Rightarrow> node \<Rightarrow> bool" where
  "derives gap S t = (conforms t \<and> label t = ''start'' \<and> covers gap S 0 (tokens_of t))"

definition parse_of :: "string \<Rightarrow> node \<Rightarrow> bool" where
  "parse_of S t = derives lark_ws S t"

text \<open>
  \<open>_PARSER\<close> builds the same tree without the tokens of the literals written inside
  the rules.
\<close>

fun reduce :: "node \<Rightarrow> node" where
  "reduce (Token k) = Token k"
| "reduce (Tree d cs) = Tree d (map reduce (filter (\<lambda>c. \<not> anonymous c) cs))"

text \<open>A token at a column, for writing trees down.\<close>

definition tk :: "string \<Rightarrow> string \<Rightarrow> int \<Rightarrow> node" where
  "tk ty v c = Token \<lparr>tok_type = ty, tok_value = v, column = c, end_column = c + int (length v)\<rparr>"

section \<open>The claims as the specification words them\<close>

text \<open>
  Registration as the specification states it: the third clause tests the canonical
  (white-space-free) key against the dual-dispatch set.
\<close>

definition requires_registration_as_specified :: "FuncGen \<Rightarrow> (string \<times> string) list \<Rightarrow> bool" where
  "requires_registration_as_specified fgen overrides =
     ((dispatch fgen \<and> \<not> math fgen)
      \<or> get_mapsig_key (mapsig fgen) \<in> fst ` set overrides
      \<or> (get_mapsig_key (mapsig fgen) \<in> FN_AUTOGRAD_XLA \<or> func fgen \<in> FN_AUTOGRAD_XLA))"

text \<open>An entry of the override table whose canonical key is not among the keys bound.\<close>

definition unused_override :: "string set \<Rightarrow> string \<times> string \<Rightarrow> bool" where
  "unused_override overridden entry = (get_mapsig_key (fst entry) \<notin> overridden)"

text \<open>
  The implementation that a registration binds, as the specification states it: the
  override when the table has the record's canonical key, else the generated wrapper
  when a body was generated, else none.
\<close>

definition bound_implementation :: "FuncGen \<Rightarrow> (string \<times> string) list \<Rightarrow> string option" where
  "bound_implementation fgen overrides =
     (if get_mapsig_key (mapsig fgen) \<in> fst ` set overrides
      then Some (''AtenXlaType::'' @ func fgen)
      else if truthy (code fgen) then Some (xfunc fgen) else None)"

text \<open>The function-pointer type of a registration: \<open>(*)\<close> before the first parenthesis.\<close>

definition overload_of :: "string \<Rightarrow> string" where
  "overload_of fs =
     py_slice fs 0 (py_find fs ''('') @ '' (*)'' @ py_slice fs (py_find fs ''('') (int (length fs))"

text \<open>
  The registration statement of a record, as the specification states it: the statement
  that binds the implementation above when the record requires registration and there
  is such an implementation, and no text otherwise.
\<close>

definition registration_statement :: "FuncGen \<Rightarrow> (string \<times> string) list \<Rightarrow> error + string" where
  "registration_statement fgen overrides =
     (if requires_registration fgen overrides
      then (case bound_implementation fgen overrides of
              None \<Rightarrow> Inr []
            | Some impl \<Rightarrow> generate_unboxed (aten_sig fgen) (overload_of (funsig fgen)) impl)
      else Inr [])"

text \<open>
  What \<open>get_reference_param\<close> reads of a parameter: its name, its core type (the
  wrapped one for \<open>c10::optional\<close>) and whether its type starts with \<open>const\<close>.
\<close>

type_synonym param_info = "node \<times> string \<times> string \<times> bool"

definition param_facts :: "node \<Rightarrow> error + string \<times> string \<times> bool" where
  "param_facts p =
     rbind (param_type p) (\<lambda>ptype.
     rbind (unwrapped_core_type ptype) (\<lambda>cptype.
     rbind (param_name p) (\<lambda>pname.
     rbind (type_is_const ptype) (\<lambda>c. Inr (pname, cptype, c)))))"

definition is_explicit :: "string option \<Rightarrow> param_info \<Rightarrow> bool" where
  "is_explicit explicit i = (case i of (p, n, t, c) \<Rightarrow> explicit = Some n)"

definition is_self_or_const_tensor :: "param_info \<Rightarrow> bool" where
  "is_self_or_const_tensor i = (case i of (p, n, t, c) \<Rightarrow> t = ''Tensor'' \<and> (n = ''self'' \<or> c))"

definition is_options_like :: "param_info \<Rightarrow> bool" where
  "is_options_like i =
     (case i of (p, n, t, c) \<Rightarrow> t = ''TensorOptions'' \<or> t = ''TensorList'' \<or> t = ''Device'')"

definition is_tensor :: "param_info \<Rightarrow> bool" where
  "is_tensor i = (case i of (p, n, t, c) \<Rightarrow> t = ''Tensor'')"

text \<open>
  The reference parameter in the order of priority that the specification states:
  the explicit name, the first tensor named \<open>self\<close> or \<open>const\<close>, the first
  options-like parameter, the last tensor.
\<close>

definition reference_param_as_specified :: "string option \<Rightarrow> param_info list \<Rightarrow> node option" where
  "reference_param_as_specified explicit infos =
     map_option fst
       (case find (is_explicit explicit) infos of Some i \<Rightarrow> Some i | None \<Rightarrow>
        (case find is_self_or_const_tensor infos of Some i \<Rightarrow> Some i | None \<Rightarrow>
         (case find is_options_like infos of Some i \<Rightarrow> Some i | None \<Rightarrow>
            find is_tensor (rev infos))))"

text \<open>The same with the last tensor before the first options-like parameter.\<close>

definition reference_param_of :: "string option \<Rightarrow> param_info list \<Rightarrow> node option" where
  "reference_param_of explicit infos =
     map_option fst
       (case find (is_explicit explicit) infos of Some i \<Rightarrow> Some i | None \<Rightarrow>
        (case find is_self_or_const_tensor infos of Some i \<Rightarrow> Some i | None \<Rightarrow>
         (case find is_tensor (rev infos) of Some i \<Rightarrow> Some i | None \<Rightarrow>
            find is_options_like infos)))"

text \<open>The string \<open>sub\<close> occurs in the string \<open>s\<close>.\<close>

definition occurs_in :: "string \<Rightarrow> string \<Rightarrow> bool" where
  "occurs_in sub s = (\<exists>a b. s = a @ sub @ b)"

text \<open>
  A word occurs in a text as a whole word: it occurs there with no word character just
  before it and none just after it.
\<close>

definition word_occurs :: "string \<Rightarrow> string \<Rightarrow> bool" where
  "word_occurs w s =
     (\<exists>a b. s = a @ w @ b \<and> (a = [] \<or> \<not> isword (last a)) \<and> (b = [] \<or> \<not> isword (hd b)))"





text \<open>
  The body of an out-variant wrapper in closed form, for \<open>n\<close> outputs: the call of
  the function without its suffix on the parameters from position \<open>n\<close> on, one copy
  for each of the first \<open>n\<close> parameters, and the return statement.  In
  \<open>out_variant_body\<close> the return statement depends on whether the return type is a
  tuple; in \<open>out_variant_body_as_specified\<close> it depends on whether \<open>n\<close> is 1.
\<close>

definition out_variant_result :: "string \<Rightarrow> bool \<Rightarrow> nat \<Rightarrow> string" where
  "out_variant_result fname is_tuple i =
     (if is_tuple then ''std::get<'' @ str_nat i @ ''>('' @ fname @ ''_tmp)'' else fname @ ''_tmp'')"

definition out_variant_prefix ::
  "string \<Rightarrow> string \<Rightarrow> string \<Rightarrow> string \<Rightarrow> bool \<Rightarrow> nat \<Rightarrow> string list \<Rightarrow> string" where
  "out_variant_prefix sg debug fname stem is_tuple n pvs =
     sg @ '' {\<newline>'' @ debug
     @ ''  auto '' @ fname @ ''_tmp = AtenXlaType::'' @ stem @ ''('' @ join '', '' (drop n pvs)
     @ '');\<newline>''
     @ concat (map (\<lambda>i. generate_outfn_result_copy (pvs ! i) (out_variant_result fname is_tuple i))
                 [0 ..< n])"

definition out_variant_body ::
  "string \<Rightarrow> string \<Rightarrow> string \<Rightarrow> string \<Rightarrow> bool \<Rightarrow> nat \<Rightarrow> string list \<Rightarrow> string \<Rightarrow> string" where
  "out_variant_body sg debug fname stem is_tuple n pvs rtype_str =
     out_variant_prefix sg debug fname stem is_tuple n pvs
     @ ''  return ''
     @ (if is_tuple then rtype_str @ ''('' @ join '', '' (take n pvs) @ '')'' else pvs ! 0)
     @ '';\<newline>}''"

definition out_variant_body_as_specified ::
  "string \<Rightarrow> string \<Rightarrow> string \<Rightarrow> string \<Rightarrow> bool \<Rightarrow> nat \<Rightarrow> string list \<Rightarrow> string \<Rightarrow> string" where
  "out_variant_body_as_specified sg debug fname stem is_tuple n pvs rtype_str =
     out_variant_prefix sg debug fname stem is_tuple n pvs
     @ ''  return ''
     @ (if n = 1 then pvs ! 0 else rtype_str @ ''('' @ join '', '' (take n pvs) @ '')'')
     @ '';\<newline>}''"

section \<open>Example inputs\<close>

text \<open>
  A function record that carries only what registration reads: the map-key, the name
  and the two flags of \<open>max_pool2d\<close>.
\<close>

definition record_of :: "string \<Rightarrow> string \<Rightarrow> string option \<Rightarrow> bool \<Rightarrow> bool \<Rightarrow> FuncGen" where
  "record_of name key body d m =
     \<lparr>tree = Tree ''start'' [], xtree = Tree ''start'' [], rwxtree = Tree ''start'' [],
      func = name, xfunc = gen_fnname name, code = body, sig = [], rwsig = [], cppsig = [],
      funsig = ''at::Tensor(const at::Tensor &)'', mapsig = key,
      aten_sig = ''aten::'' @ name @ ''(Tensor self) -> Tensor'', dispatch = d, math = m\<rparr>"

definition max_pool2d_record :: FuncGen where
  "max_pool2d_record =
     record_of ''max_pool2d''
       ''max_pool2d(Tensor, IntArrayRef, IntArrayRef, IntArrayRef, IntArrayRef, bool) -> Tensor''
       None False False"

text \<open>
  The signature \<open>Tensor f(Tensor a)\<close> and the tree that keeps every token; the
  columns start at 1.
\<close>

definition sig_f :: string where
  "sig_f = ''Tensor f(Tensor a)''"

definition sig_f_tree :: node where
  "sig_f_tree =
     Tree ''start''
       [Tree ''type'' [Tree ''core_type'' [tk ''TNAME'' ''Tensor'' 1]],
        Tree ''fnname'' [tk ''CNAME'' ''f'' 8],
        tk ''LPAR'' ''('' 9,
        Tree ''params''
          [Tree ''param''
             [Tree ''type'' [Tree ''core_type'' [tk ''TNAME'' ''Tensor'' 10]],
              Tree ''param_name'' [tk ''CNAME'' ''a'' 17]]],
        tk ''RPAR'' '')'' 18]"

text \<open>
  A library whose parsers know a table of signatures, whose JSON decoder knows one
  object, and whose templates substitute nothing.
\<close>

definition table_library :: "(string \<times> node) list \<Rightarrow> library" where
  "table_library tab =
     \<lparr>PARSER_parse = (\<lambda>s. case map_of tab s of None \<Rightarrow> Inl ParseError | Some t \<Rightarrow> Inr (reduce t)),
      XPARSER_parse = (\<lambda>s. case map_of tab s of None \<Rightarrow> Inl ParseError | Some t \<Rightarrow> Inr t),
      json_loads = (\<lambda>s. if s = ''{\"schema\": \"aten::f(Tensor a) -> Tensor\"}''
                         then Inr [''schema'' \<mapsto> ''aten::f(Tensor a) -> Tensor'']
                         else Inl JSONError),
      Template_substitute = (\<lambda>tmpl m. Inr tmpl)\<rparr>"

definition f_record :: FuncGen where
  "f_record = record_of ''f'' ''f(Tensor) -> Tensor'' (Some ''at::Tensor AtenXlaTypeDefault::f(at::Tensor a) {}'') True False"

text \<open>
  Two more records that require registration: one with a body, one without; and an
  override table that has the key of \<open>f_record\<close> only.
\<close>

definition g_record :: FuncGen where
  "g_record = record_of ''g'' ''g(Tensor) -> Tensor'' (Some ''at::Tensor AtenXlaTypeDefault::g(at::Tensor a) {}'') True False"

definition h_record :: FuncGen where
  "h_record = record_of ''h'' ''h(Tensor) -> Tensor'' None True False"

definition f_overrides :: "(string \<times> string) list" where
  "f_overrides = [(''f(Tensor)->Tensor'', sig_f)]"

text \<open>
  The signature \<open>Tensor & cat_out(Tensor & out, TensorList tensors, int64_t dim)\<close>
  and its tree with every token.
\<close>

definition sig_cat_out :: string where
  "sig_cat_out = ''Tensor & cat_out(Tensor & out, TensorList tensors, int64_t dim)''"

definition param_out :: node where
  "param_out =
     Tree ''param''
       [Tree ''type'' [Tree ''core_type'' [tk ''TNAME'' ''Tensor'' 18],
                       Tree ''refspec'' [tk ''REF'' ''&'' 25]],
        Tree ''param_name'' [tk ''CNAME'' ''out'' 27]]"

definition param_tensors :: node where
  "param_tensors =
     Tree ''param''
       [Tree ''type'' [Tree ''core_type'' [tk ''TNAME'' ''TensorList'' 32]],
        Tree ''param_name'' [tk ''CNAME'' ''tensors'' 43]]"

definition param_dim :: node where
  "param_dim =
     Tree ''param''
       [Tree ''type'' [Tree ''core_type'' [tk ''TNAME'' ''int64_t'' 52]],
        Tree ''param_name'' [tk ''CNAME'' ''dim'' 60]]"

definition sig_cat_out_tree :: node where
  "sig_cat_out_tree =
     Tree ''start''
       [Tree ''type'' [Tree ''core_type'' [tk ''TNAME'' ''Tensor'' 1],
                       Tree ''refspec'' [tk ''REF'' ''&'' 8]],
        Tree ''fnname'' [tk ''CNAME'' ''cat_out'' 10],
        tk ''LPAR'' ''('' 17,
        Tree ''params''
          [param_out, tk ''COMMA'' '','' 30,
           Tree ''params''
             [param_tensors, tk ''COMMA'' '','' 50, Tree ''params'' [param_dim]]],
        tk ''RPAR'' '')'' 63]"

text \<open>
  The signature \<open>std::tuple<Tensor &> abs_out(Tensor & out, const Tensor & self)\<close>,
  its tree with every token, and the same for the signature with the type names
  rewritten.
\<close>

definition sig_tuple_out :: string where
  "sig_tuple_out = ''std::tuple<Tensor &> abs_out(Tensor & out, const Tensor & self)''"

definition tuple_out_param_out :: node where
  "tuple_out_param_out =
     Tree ''param''
       [Tree ''type'' [Tree ''core_type'' [tk ''TNAME'' ''Tensor'' 30],
                       Tree ''refspec'' [tk ''REF'' ''&'' 37]],
        Tree ''param_name'' [tk ''CNAME'' ''out'' 39]]"

definition tuple_out_param_self :: node where
  "tuple_out_param_self =
     Tree ''param''
       [Tree ''type'' [tk ''CONST'' ''const'' 44,
                       Tree ''core_type'' [tk ''TNAME'' ''Tensor'' 50],
                       Tree ''refspec'' [tk ''REF'' ''&'' 57]],
        Tree ''param_name'' [tk ''CNAME'' ''self'' 59]]"

definition sig_tuple_out_tree :: node where
  "sig_tuple_out_tree =
     Tree ''start''
       [Tree ''type''
          [Tree ''core_type''
             [Tree ''template''
                [tk ''TNAME'' ''std::tuple'' 1, tk ''LESSTHAN'' ''<'' 11,
                 Tree ''typelist''
                   [Tree ''type'' [Tree ''core_type'' [tk ''TNAME'' ''Tensor'' 12],
                                   Tree ''refspec'' [tk ''REF'' ''&'' 19]]],
                 tk ''MORETHAN'' ''>'' 20]]],
        Tree ''fnname'' [tk ''CNAME'' ''abs_out'' 22],
        tk ''LPAR'' ''('' 29,
        Tree ''params''
          [tuple_out_param_out, tk ''COMMA'' '','' 42, Tree ''params'' [tuple_out_param_self]],
        tk ''RPAR'' '')'' 63]"

text \<open>The return type of that signature in the reduced tree.\<close>

definition tuple_out_rtype :: node where
  "tuple_out_rtype =
     Tree ''type''
       [Tree ''core_type''
          [Tree ''template''
             [tk ''TNAME'' ''std::tuple'' 1,
              Tree ''typelist''
                [Tree ''type'' [Tree ''core_type'' [tk ''TNAME'' ''Tensor'' 12],
                                Tree ''refspec'' [tk ''REF'' ''&'' 19]]]]]]"

definition cppsig_tuple_out :: string where
  "cppsig_tuple_out =
     ''std::tuple<at::Tensor &> AtenXlaTypeDefault::abs_out(at::Tensor & out, const at::Tensor & self)''"

definition debug_tuple_out :: string where
  "debug_tuple_out =
     ''  XLA_FN_TRACK(3);\<newline>''
     @ ''  TF_VLOG(3) << \"XLA abs_out :\" << \" out=\" << out.toString() << \" self=\" << self.toString();\<newline>''"

definition rwsig_tuple_out :: string where
  "rwsig_tuple_out =
     ''std::tuple<at::Tensor &> abs_out(at::Tensor & out, const at::Tensor & self)''"

definition rwsig_tuple_out_tree :: node where
  "rwsig_tuple_out_tree =
     Tree ''start''
       [Tree ''type''
          [Tree ''core_type''
             [Tree ''template''
                [tk ''TNAME'' ''std::tuple'' 1, tk ''LESSTHAN'' ''<'' 11,
                 Tree ''typelist''
                   [Tree ''type'' [Tree ''core_type'' [tk ''TNAME'' ''at::Tensor'' 12],
                                   Tree ''refspec'' [tk ''REF'' ''&'' 23]]],
                 tk ''MORETHAN'' ''>'' 24]]],
        Tree ''fnname'' [tk ''CNAME'' ''abs_out'' 26],
        tk ''LPAR'' ''('' 33,
        Tree ''params''
          [Tree ''param''
             [Tree ''type'' [Tree ''core_type'' [tk ''TNAME'' ''at::Tensor'' 34],
                             Tree ''refspec'' [tk ''REF'' ''&'' 45]],
              Tree ''param_name'' [tk ''CNAME'' ''out'' 47]],
           tk ''COMMA'' '','' 50,
           Tree ''params''
             [Tree ''param''
                [Tree ''type'' [tk ''CONST'' ''const'' 52,
                                Tree ''core_type'' [tk ''TNAME'' ''at::Tensor'' 58],
                                Tree ''refspec'' [tk ''REF'' ''&'' 69]],
                 Tree ''param_name'' [tk ''CNAME'' ''self'' 71]]]],
        tk ''RPAR'' '')'' 75]"

text \<open>
  The signature \<open>Tensor f( const Tensor & a)\<close>: \<open>Tensor f(Tensor a)\<close> with
  a qualifier, a reference marker and more spaces.
\<close>

definition sig_f_const :: string where
  "sig_f_const = ''Tensor f( const Tensor & a)''"

definition sig_f_const_tree :: node where
  "sig_f_const_tree =
     Tree ''start''
       [Tree ''type'' [Tree ''core_type'' [tk ''TNAME'' ''Tensor'' 1]],
        Tree ''fnname'' [tk ''CNAME'' ''f'' 8],
        tk ''LPAR'' ''('' 9,
        Tree ''params''
          [Tree ''param''
             [Tree ''type'' [tk ''CONST'' ''const'' 11,
                             Tree ''core_type'' [tk ''TNAME'' ''Tensor'' 17],
                             Tree ''refspec'' [tk ''REF'' ''&'' 24]],
              Tree ''param_name'' [tk ''CNAME'' ''a'' 26]]],
        tk ''RPAR'' '')'' 27]"

text \<open>
  The signatures \<open>Tensor f(Tensor a,\<close>\<^emph>\<open>w\<close>\<open>Tensor b)\<close>, where \<^emph>\<open>w\<close> is white
  space of \<open>d\<close> characters.
\<close>

definition sig_ab :: "string \<Rightarrow> string" where
  "sig_ab w = ''Tensor f(Tensor a,'' @ w @ ''Tensor b)''"

definition sig_ab_tree :: "int \<Rightarrow> node" where
  "sig_ab_tree d =
     Tree ''start''
       [Tree ''type'' [Tree ''core_type'' [tk ''TNAME'' ''Tensor'' 1]],
        Tree ''fnname'' [tk ''CNAME'' ''f'' 8],
        tk ''LPAR'' ''('' 9,
        Tree ''params''
          [Tree ''param''
             [Tree ''type'' [Tree ''core_type'' [tk ''TNAME'' ''Tensor'' 10]],
              Tree ''param_name'' [tk ''CNAME'' ''a'' 17]],
           tk ''COMMA'' '','' 18,
           Tree ''params''
             [Tree ''param''
                [Tree ''type'' [Tree ''core_type'' [tk ''TNAME'' ''Tensor'' (19 + d)]],
                 Tree ''param_name'' [tk ''CNAME'' ''b'' (26 + d)]]]],
        tk ''RPAR'' '')'' (27 + d)]"

text \<open>
  Two declarations that do not parse: one of a function on tensors, one of a function
  on integers.
\<close>

definition broken_tensor_line :: string where
  "broken_tensor_line = ''Tensor f(Tensor a; // {}''"

definition broken_int_line :: string where
  "broken_int_line = ''int g(int a; // {}''"

text \<open>
  Two more declarations that do not parse: the first contains \<open>Tensor\<close> and not as a
  whole word once \<open>at::\<close> is removed, the second does not contain \<open>Tensor\<close> before
  \<open>at::\<close> is removed.
\<close>

definition broken_format_line :: string where
  "broken_format_line = ''void f(Format::Tensor a; // {}''"

definition broken_split_line :: string where
  "broken_split_line = ''void f(Tat::ensor a; // {}''"









text \<open>
  A function with a tensor and the four parameters that stand for tensor options:
  \<open>Tensor foo(const Tensor & self, ScalarType dtype, Layout layout, Device device, bool pin_memory)\<close>,
  its parameters, its tree with every token, and the same for the rewritten signature.
\<close>

definition sig_foo :: string where
  "sig_foo = ''Tensor foo(const Tensor & self, ScalarType dtype, Layout layout, Device device, bool pin_memory)''"












text \<open>A function with no tensor among its parameters: \<open>Tensor bar(int64_t n)\<close>.\<close>

definition sig_bar :: string where
  "sig_bar = ''Tensor bar(int64_t n)''"






section \<open>Notions used in the statements and proofs\<close>

text \<open>A string without the ignored white space at its two ends.\<close>

definition strip_ws :: "string \<Rightarrow> string" where
  "strip_ws s = rev (dropWhile lark_ws (rev (dropWhile lark_ws s)))"

definition rule_names :: "string list" where
  "rule_names =
     [''start'', ''type'', ''fnname'', ''refspec'', ''core_type'', ''template'', ''typelist'',
      ''params'', ''param'', ''param_name'', ''param_defval'', ''init_value'']"

text \<open>The first token of a tree belongs to a named terminal and starts with no white space.\<close>

definition first_ok :: "node \<Rightarrow> bool" where
  "first_ok n =
     (tokens_of n \<noteq> [] \<and> tok_type (hd (tokens_of n)) \<in> set named_terminals
      \<and> tok_value (hd (tokens_of n)) \<noteq> []
      \<and> \<not> lark_ws (hd (tok_value (hd (tokens_of n)))))"

text \<open>A tree all of whose subtrees have a child.\<close>

fun no_empty :: "node \<Rightarrow> bool" where
  "no_empty (Token k) = True"
| "no_empty (Tree d cs) = (cs \<noteq> [] \<and> list_all no_empty cs)"

text \<open>
  The tokens of a tree that a decision function without positive values emits: it is
  not negative on the token nor on any tree above it.
\<close>

fun kept :: "(node \<Rightarrow> int) \<Rightarrow> node \<Rightarrow> token list" where
  "kept f (Token k) = (if f (Token k) < 0 then [] else [k])"
| "kept f (Tree d cs) = (if f (Tree d cs) < 0 then [] else concat (map (kept f) cs))"

text \<open>The position after a list of tokens that starts at position \<open>p\<close>.\<close>

definition endpos :: "int \<Rightarrow> token list \<Rightarrow> int" where
  "endpos p ks = (if ks = [] then p else end_column (last ks) - 1)"

definition space :: "char \<Rightarrow> bool" where
  "space c = (c = CHR '' '')"

text \<open>
  Two signatures that differ only in their layout and in the qualifiers \<open>const\<close>,
  \<open>&\<close> and \<open>*\<close> have trees that are equal once the positions are forgotten and
  the qualifier tokens and \<open>refspec\<close> subtrees are removed.
\<close>

definition is_qualifier :: "node \<Rightarrow> bool" where
  "is_qualifier c =
     (case c of
        Token k \<Rightarrow> tok_type k = ''CONST'' \<or> tok_type k = ''REF'' \<or> tok_type k = ''PTR''
      | Tree d _ \<Rightarrow> d = ''refspec'')"

fun erase :: "node \<Rightarrow> node" where
  "erase (Token k) = Token (k\<lparr>column := 0, end_column := 0\<rparr>)"
| "erase (Tree d cs) = Tree d (map erase (filter (\<lambda>c. \<not> is_qualifier c) cs))"

text \<open>The type names of a signature: the texts of its \<open>TNAME\<close> tokens, in order.\<close>

definition type_names :: "node \<Rightarrow> string list" where
  "type_names t = map tok_value (filter (\<lambda>k. tok_type k = ''TNAME'') (tokens_of t))"

text \<open>
  The pieces of a canonical key: names, made of the characters of \<open>TNAME\<close>, and single
  characters of punctuation.  \<open>pieces_of\<close> cuts a string into its pieces.
\<close>

definition name_piece :: "string \<Rightarrow> bool" where
  "name_piece v = (v \<noteq> [] \<and> list_all tname_char v)"

definition punct_piece :: "string \<Rightarrow> bool" where
  "punct_piece v = (case v of [c] \<Rightarrow> \<not> tname_char c | _ \<Rightarrow> False)"

fun no_adjacent :: "string list \<Rightarrow> bool" where
  "no_adjacent [] = True"
| "no_adjacent [v] = True"
| "no_adjacent (v # w # r) = (\<not> (name_piece v \<and> name_piece w) \<and> no_adjacent (w # r))"

definition inner_piece :: "string \<Rightarrow> bool" where
  "inner_piece v = (name_piece v \<or> v = '','' \<or> v = ''<'' \<or> v = ''>'')"

definition good :: "string list \<Rightarrow> bool" where
  "good L = (L \<noteq> [] \<and> name_piece (hd L) \<and> list_all inner_piece L \<and> no_adjacent L)"

function pieces_of :: "string \<Rightarrow> string list" where
  "pieces_of [] = []"
| "pieces_of (c # cs) =
     (if tname_char c
      then takeWhile tname_char (c # cs) # pieces_of (dropWhile tname_char (c # cs))
      else [c] # pieces_of cs)"
  by pat_completeness auto
termination
proof (relation "measure length")
  fix c :: char and cs :: string
  assume "tname_char c"
  have "length (dropWhile tname_char cs) \<le> length cs" by (rule length_dropWhile_le)
  with \<open>tname_char c\<close> show "(dropWhile tname_char (c # cs), c # cs) \<in> measure length"
    by simp
qed simp_all

text \<open>The values of the tokens that the map-key projection emits.\<close>

definition kv :: "node \<Rightarrow> string list" where
  "kv n = map tok_value (kept create_map_sig_emit_fn n)"

declare pieces_of.simps [simp del]

text \<open>
  For the trees of types and parameters: the kept values begin with a name, are names
  and punctuation with no two names in a row, and their names are the type names.
\<close>

definition type_like :: "node \<Rightarrow> bool" where
  "type_like n = (good (kv n) \<and> type_names n = filter name_piece (kv n))"

text \<open>
  The canonical key of a signature, as \<open>parse_local_overrides\<close> and the registration
  compute it: the map-key projection without its spaces.
\<close>

definition canonical_key :: "node \<Rightarrow> string \<Rightarrow> error + string" where
  "canonical_key t S = rbind (create_map_sig t S) (\<lambda>m. Inr (get_mapsig_key m))"

text \<open>
  What one line of the declaration source adds to the functions and to the errors of
  \<open>extract_functions\<close>.
\<close>

definition line_functions :: "library \<Rightarrow> string \<Rightarrow> FuncDef list" where
  "line_functions lib line =
     (case match_declaration line of
        None \<Rightarrow> []
      | Some (fndef, jdata) \<Rightarrow>
          (case rbind (XPARSER_parse lib fndef) (\<lambda>_. create_funcdef lib fndef jdata) of
             Inr fd \<Rightarrow> [fd]
           | Inl e \<Rightarrow> []))"

definition line_errors :: "library \<Rightarrow> string \<Rightarrow> (string \<times> error) list" where
  "line_errors lib line =
     (case match_declaration line of
        None \<Rightarrow> []
      | Some (fndef, jdata) \<Rightarrow>
          (case rbind (XPARSER_parse lib fndef) (\<lambda>_. create_funcdef lib fndef jdata) of
             Inr fd \<Rightarrow> []
           | Inl e \<Rightarrow> if fst (is_tensor_api fndef) then [(fndef, e)] else []))"

text \<open>The word \<open>w\<close> is at the start of \<open>s\<close>, with no word character after it.\<close>

definition word_here :: "string \<Rightarrow> string \<Rightarrow> bool" where
  "word_here w s = (startswith s w
               \<and> (case drop (length w) s of [] \<Rightarrow> True | d # _ \<Rightarrow> \<not> isword d))"




section \<open>Basic facts\<close>

lemma rbind_simps [simp]: "rbind (Inr x) f = f x" "rbind (Inl e) f = Inl e"
  by (simp_all add: rbind_def)

lemma rbind_Inr: "rbind m f = Inr y \<longleftrightarrow> (\<exists>x. m = Inr x \<and> f x = Inr y)"
  by (cases m) simp_all

lemma find_app:
  "find P (xs @ ys) = (case find P xs of None \<Rightarrow> find P ys | Some x \<Rightarrow> Some x)"
  by (induction xs) simp_all

lemma rfold_append: "rfold f (xs @ ys) s = rbind (rfold f xs s) (rfold f ys)"
proof (induction xs arbitrary: s)
  case Nil
  show ?case by simp
next
  case (Cons x xs)
  show ?case by (cases "f s x") (simp_all add: Cons)
qed

lemma py_getitem_nat: "i < length xs \<Longrightarrow> py_getitem xs (int i) = Inr (xs ! i)"
  by (simp add: py_getitem_def)

lemma py_getitem_0: "py_getitem (x # xs) 0 = Inr x"
  by (simp add: py_getitem_def)

lemma join_snoc: "xs \<noteq> [] \<Longrightarrow> join sep (xs @ [x]) = join sep xs @ sep @ x"
  by (induction sep xs rule: join.induct) simp_all

lemma str_nat_digit: "n < 10 \<Longrightarrow> str_nat n = [''0123456789'' ! n]"
  by (simp add: str_nat.simps)

section \<open>Canonical keys\<close>

lemma get_mapsig_key_filter: "get_mapsig_key s = filter (\<lambda>c. c \<noteq> CHR '' '') s"
  by (induction s) (simp_all add: get_mapsig_key_def startswith_def)

lemma get_mapsig_key_no_space: "CHR '' '' \<notin> set (get_mapsig_key s)"
  by (simp add: get_mapsig_key_filter)

lemma get_mapsig_key_idem: "get_mapsig_key (get_mapsig_key s) = get_mapsig_key s"
  by (simp add: get_mapsig_key_filter)

lemma canonical_key_not_autograd: "get_mapsig_key s \<notin> FN_AUTOGRAD_XLA"
proof
  assume "get_mapsig_key s \<in> FN_AUTOGRAD_XLA"
  then have "CHR '' '' \<in> set (get_mapsig_key s)"
    by (auto simp: FN_AUTOGRAD_XLA_def)
  then show False
    by (simp add: get_mapsig_key_no_space)
qed

section \<open>Which records are registered\<close>

text \<open>
  C6, as the code has it: registration is required exactly when the record is flagged
  for dispatch and not as a math operation, or the override table has an entry for its
  canonical key, or its map-key as emitted (before the spaces are removed) or its name
  is in the dual-dispatch set.  The canonical key itself is never in that set, whose
  entries are written with spaces.
\<close>

theorem requires_registration_iff:
  "requires_registration fgen overrides =
     ((dispatch fgen \<and> \<not> math fgen)
      \<or> get_mapsig_key (mapsig fgen) \<in> fst ` set overrides
      \<or> mapsig fgen \<in> FN_AUTOGRAD_XLA \<or> func fgen \<in> FN_AUTOGRAD_XLA)
   \<and> get_mapsig_key (mapsig fgen) \<notin> FN_AUTOGRAD_XLA"
  by (simp add: requires_registration_def canonical_key_not_autograd)

theorem requires_registration_iff_witness:
  "requires_registration max_pool2d_record [] \<and> mapsig max_pool2d_record \<in> FN_AUTOGRAD_XLA
   \<and> get_mapsig_key (mapsig max_pool2d_record) \<notin> FN_AUTOGRAD_XLA"
  using requires_registration_iff [of max_pool2d_record "[]"]
  by (simp add: max_pool2d_record_def record_of_def FN_AUTOGRAD_XLA_def)

text \<open>
  C6 as stated fails on the record of \<open>max_pool2d\<close> with no flag and no override: it
  is registered because its map-key with spaces is in the dual-dispatch set, while
  neither its canonical key nor its name is.
\<close>

theorem requires_registration_counterexample:
  "requires_registration max_pool2d_record []
   \<noteq> requires_registration_as_specified max_pool2d_record []"
  by (simp add: requires_registration_def requires_registration_as_specified_def
      max_pool2d_record_def record_of_def FN_AUTOGRAD_XLA_def get_mapsig_key_filter)

section \<open>Unused overrides\<close>

lemma check_override_fold:
  "foldl (check_override overridden) (m, out) overrides =
     (m + int (length (filter (unused_override overridden) overrides)),
      out @ map (\<lambda>(k, v). Missed_override v k) (filter (unused_override overridden) overrides))"
  by (induction overrides arbitrary: m out) (auto simp: check_override_def unused_override_def)

lemma check_overrides_eq:
  "check_overrides overrides overridden =
     (\<not> list_ex (unused_override overridden) overrides,
      map (\<lambda>(k, v). Missed_override v k) (filter (unused_override overridden) overrides))"
  by (auto simp: check_overrides_def check_override_fold list_ex_iff filter_empty_conv)

text \<open>
  C8: once the declarations are read without error, the overrides are read, the
  wrappers are generated and the two registration blocks are built, with \<open>overridden\<close>
  the set of the keys bound to an override, the run prints one message for each entry
  of the override table whose canonical key is not in \<open>overridden\<close>, in the order of
  the table, and it is aborted (by the assertion) if and only if there is such an entry.
\<close>

theorem unused_overrides_abort_run:
  assumes "extract_functions lib typedef = (fndefs, [], out0)"
    and "parse_local_overrides lib xlatype = Inr overrides"
    and "foldl (wrap_function lib \<lparr>functions_data = functions\<rparr>)
           ([], out0 @ [Extracted (length fndefs) 0, Function_overrides (length overrides)]) fndefs
         = (fgens, out2)"
    and "generate_registrations fgens overrides = Inr (regs, overridden)"
  shows "fst (generate lib gen xlatype typedef functions)
           = out2 @ Generated_wrappers (length fgens)
               # map (\<lambda>(k, v). Missed_override v k) (filter (unused_override overridden) overrides)
         \<and> (snd (generate lib gen xlatype typedef functions) = Inl AssertionError)
             = list_ex (unused_override overridden) overrides
         \<and> isl (snd (generate lib gen xlatype typedef functions))
             = list_ex (unused_override overridden) overrides"
  using assms
  by (simp add: generate_def check_overrides_eq Let_def)

theorem unused_overrides_abort_run_witness:
  "fst (generate (table_library [(sig_f, sig_f_tree)]) ''gen.py''
          [''static Tensor f(Tensor a);\<newline>''] [] [])
     = [Extracted 0 0, Function_overrides 1, Generated_wrappers 0,
        Missed_override ''Tensor f(Tensor a)'' ''f(Tensor)->Tensor'']
   \<and> snd (generate (table_library [(sig_f, sig_f_tree)]) ''gen.py''
          [''static Tensor f(Tensor a);\<newline>''] [] []) = Inl AssertionError"
proof -
  let ?lib = "table_library [(sig_f, sig_f_tree)]"
  let ?regs = "''TORCH_LIBRARY_IMPL(aten, XLA, m) {\<newline>'' @ ''\<newline>}\<newline>''
               @ ''TORCH_LIBRARY_IMPL(aten, AutogradXLA, m) {\<newline>'' @ ''\<newline>}\<newline>''"
  have key: "create_map_sig sig_f_tree sig_f = Inr ''f(Tensor) -> Tensor''"
    by (simp add: create_map_sig_def sig_f_tree_def sig_f_def typed_child_def tk_def rbind_def
        StringEmit_init_def create_map_sig_emit_fn_def advance_def skip_def append_str_def
        py_slice_def)
  have tensor: "is_tensor_api ''Tensor f(Tensor a)'' = (True, sig_f)"
    by (simp add: is_tensor_api_def startswith_def isword_def sig_f_def)
  have e: "extract_functions ?lib [] = ([], [], [])"
    by (simp add: extract_functions_def)
  have p: "parse_local_overrides ?lib [''static Tensor f(Tensor a);\<newline>'']
             = Inr [(''f(Tensor)->Tensor'', sig_f)]"
    by (simp add: parse_local_overrides_def override_line_def py_strip_def isspace_def
        truthy_def match_static_decl_def match_static_def startswith_def override_entry_def
        tensor table_library_def rbind_def key get_mapsig_key_filter)
  have w: "foldl (wrap_function ?lib \<lparr>functions_data = []\<rparr>)
             ([], [] @ [Extracted (length ([] :: FuncDef list)) 0,
                        Function_overrides (length [(''f(Tensor)->Tensor'', sig_f)])]) []
           = ([], [Extracted 0 0, Function_overrides 1])"
    by simp
  have r: "generate_registrations [] [(''f(Tensor)->Tensor'', sig_f)] = Inr (?regs, {})"
    by (simp add: generate_registrations_def rbind_def)
  show ?thesis
    using unused_overrides_abort_run [OF e p w r, of "''gen.py''"]
    by (simp add: unused_override_def get_mapsig_key_filter sig_f_def)
qed

section \<open>The implementation a registration binds\<close>


lemma register_function_statement:
  assumes "xfunc fgen \<noteq> []"
  shows "register_function overrides (a, g, ov) fgen =
           rbind (registration_statement fgen overrides) (\<lambda>stmt.
             Inr (if mapsig fgen \<in> FN_AUTOGRAD_XLA then a else a @ stmt,
                  if mapsig fgen \<in> FN_AUTOGRAD_XLA then g @ stmt else g,
                  if get_mapsig_key (mapsig fgen) \<in> fst ` set overrides
                  then insert (get_mapsig_key (mapsig fgen)) ov else ov))"
  using assms
  by (auto simp: register_function_def registration_statement_def bound_implementation_def
      requires_registration_def overload_of_def Let_def truthy_def fmt_def rbind_def
      split: sum.splits)

lemma registrations_fold:
  assumes "\<forall>fgen\<in>set fgens. xfunc fgen \<noteq> []"
  shows "rfold (register_function overrides) fgens (a, g, ov) =
           rbind (rmap (\<lambda>fgen. registration_statement fgen overrides) fgens) (\<lambda>stmts.
             Inr (a @ concat (map snd (filter (\<lambda>(fgen, stmt). mapsig fgen \<notin> FN_AUTOGRAD_XLA)
                                          (zip fgens stmts))),
                  g @ concat (map snd (filter (\<lambda>(fgen, stmt). mapsig fgen \<in> FN_AUTOGRAD_XLA)
                                          (zip fgens stmts))),
                  ov \<union> {k \<in> fst ` set overrides. \<exists>fgen\<in>set fgens. k = get_mapsig_key (mapsig fgen)}))"
  using assms
proof (induction fgens arbitrary: a g ov)
  case Nil
  show ?case by simp
next
  case (Cons fgen fgens)
  then have x: "xfunc fgen \<noteq> []" and xs: "\<forall>fgen\<in>set fgens. xfunc fgen \<noteq> []" by simp_all
  show ?case
  proof (cases "registration_statement fgen overrides")
    case (Inl e)
    then show ?thesis by (simp add: register_function_statement [OF x])
  next
    case (Inr stmt)
    show ?thesis
    proof (cases "rmap (\<lambda>fgen. registration_statement fgen overrides) fgens")
      case (Inl e)
      then show ?thesis
        by (simp add: register_function_statement [OF x] Inr Cons.IH [OF xs])
    next
      case stmts: (Inr stmts)
      show ?thesis
        by (auto simp add: register_function_statement [OF x] Inr stmts Cons.IH [OF xs])
           (metis fst_conv image_eqI)+
    qed
  qed
qed

text \<open>
  C7: \<open>generate_registrations\<close> emits, between the opening and the closing of the two
  blocks, the registration statement of each record, in the order of the records: for a
  record that requires registration, the statement binds the override when the override
  table has the record's canonical key, else the generated wrapper when a body was
  generated, and there is no statement otherwise, nor for a record that requires no
  registration.  A statement goes to the dual-dispatch block when the record's map-key
  is in the dual-dispatch set, to the primary block otherwise.  The keys returned as
  overridden are those of the override table that are the canonical key of a record.
  (The wrapper of a record always has a name.)
\<close>

theorem registrations_bind:
  assumes "\<forall>fgen\<in>set fgens. xfunc fgen \<noteq> []"
  shows "generate_registrations fgens overrides =
           rbind (rmap (\<lambda>fgen. registration_statement fgen overrides) fgens) (\<lambda>stmts.
             Inr (''TORCH_LIBRARY_IMPL(aten, XLA, m) {\<newline>''
                  @ concat (map snd (filter (\<lambda>(fgen, stmt). mapsig fgen \<notin> FN_AUTOGRAD_XLA)
                                       (zip fgens stmts)))
                  @ ''\<newline>}\<newline>'' @ ''TORCH_LIBRARY_IMPL(aten, AutogradXLA, m) {\<newline>''
                  @ concat (map snd (filter (\<lambda>(fgen, stmt). mapsig fgen \<in> FN_AUTOGRAD_XLA)
                                       (zip fgens stmts)))
                  @ ''\<newline>}\<newline>'',
                  {k \<in> fst ` set overrides. \<exists>fgen\<in>set fgens. k = get_mapsig_key (mapsig fgen)}))"
proof (cases "rmap (\<lambda>fgen. registration_statement fgen overrides) fgens")
  case (Inl e)
  then show ?thesis by (simp add: generate_registrations_def registrations_fold [OF assms])
next
  case (Inr stmts)
  then show ?thesis by (simp add: generate_registrations_def registrations_fold [OF assms])
qed

theorem registrations_bind_witness:
  "generate_registrations [f_record, g_record, h_record] f_overrides
     = Inr (''TORCH_LIBRARY_IMPL(aten, XLA, m) {\<newline>''
            @ ''  m.impl_UNBOXED(\"f\", static_cast<at::Tensor (*)(const at::Tensor &)>(&AtenXlaType::f));\<newline>''
            @ ''  m.impl_UNBOXED(\"g\", static_cast<at::Tensor (*)(const at::Tensor &)>(&AtenXlaTypeDefault::g));\<newline>''
            @ ''\<newline>}\<newline>'' @ ''TORCH_LIBRARY_IMPL(aten, AutogradXLA, m) {\<newline>'' @ ''\<newline>}\<newline>'',
            {''f(Tensor)->Tensor''})"
proof -
  have x: "\<forall>fgen\<in>set [f_record, g_record, h_record]. xfunc fgen \<noteq> []"
    by (simp add: f_record_def g_record_def h_record_def record_of_def gen_fnname_def)
  have s: "registration_statement f_record f_overrides
             = Inr ''  m.impl_UNBOXED(\"f\", static_cast<at::Tensor (*)(const at::Tensor &)>(&AtenXlaType::f));\<newline>''"
    "registration_statement g_record f_overrides
             = Inr ''  m.impl_UNBOXED(\"g\", static_cast<at::Tensor (*)(const at::Tensor &)>(&AtenXlaTypeDefault::g));\<newline>''"
    "registration_statement h_record f_overrides = Inr []"
    by (simp_all add: registration_statement_def requires_registration_def
        bound_implementation_def f_record_def g_record_def h_record_def record_of_def
        f_overrides_def get_mapsig_key_filter truthy_def gen_fnname_def py_split_def
        startswith_def py_getitem_def generate_unboxed_def overload_of_def py_find_def
        py_slice_def)
  have m: "mapsig f_record \<notin> FN_AUTOGRAD_XLA" "mapsig g_record \<notin> FN_AUTOGRAD_XLA"
    "mapsig h_record \<notin> FN_AUTOGRAD_XLA"
    by (simp_all add: f_record_def g_record_def h_record_def record_of_def FN_AUTOGRAD_XLA_def)
  have k: "{k \<in> fst ` set f_overrides.
            \<exists>fgen\<in>set [f_record, g_record, h_record]. k = get_mapsig_key (mapsig fgen)}
           = {''f(Tensor)->Tensor''}"
    by (auto simp: f_overrides_def f_record_def record_of_def get_mapsig_key_filter)
  show ?thesis
    using registrations_bind [OF x, of f_overrides] k
    by (simp add: s m)
qed


section \<open>The reference parameter\<close>

lemma ref_loop_eq:
  "rmap param_facts ps = Inr fs \<Longrightarrow>
   ref_loop fnopts ps rp other =
     Inr (case find (is_explicit (get_optional fnopts ref_param None)) (zip ps fs) of
            Some i \<Rightarrow> Some (fst i)
          | None \<Rightarrow>
             (case rp of Some r \<Rightarrow> Some r | None \<Rightarrow>
              (case find is_self_or_const_tensor (zip ps fs) of Some i \<Rightarrow> Some (fst i) | None \<Rightarrow>
               (case find is_tensor (rev (zip ps fs)) of Some i \<Rightarrow> Some (fst i) | None \<Rightarrow>
                (case other of Some q \<Rightarrow> Some q | None \<Rightarrow>
                  map_option fst (find is_options_like (zip ps fs)))))))"
proof (induction ps arbitrary: fs rp other)
  case Nil
  then show ?case by (cases rp; cases other) auto
next
  case (Cons p ps)
  from Cons.prems obtain f fs' where f: "param_facts p = Inr f"
    and fs': "rmap param_facts ps = Inr fs'" and fs: "fs = f # fs'"
    by (auto simp: rbind_Inr)
  obtain n t c where ntc: "f = (n, t, c)" by (cases f)
  from f ntc obtain ptype where pt: "param_type p = Inr ptype"
    and ct: "unwrapped_core_type ptype = Inr t"
    and pn: "param_name p = Inr n" and tc: "type_is_const ptype = Inr c"
    by (auto simp: param_facts_def rbind_Inr)
  note IH = Cons.IH [OF fs']
  show ?case
    unfolding fs ntc
    by (simp add: pt ct pn tc IH is_explicit_def is_self_or_const_tensor_def is_tensor_def
        is_options_like_def Let_def find_app split: option.splits)
qed

text \<open>
  C3, as the code has it.  For parameters that the loop can read, the reference
  parameter is the parameter with the explicit name of the policy options, if there is
  one; else the first tensor that is named \<open>self\<close> or is \<open>const\<close>; else the last
  tensor; else the first parameter of type TensorOptions, TensorList or Device.
\<close>

theorem get_reference_param_priority:
  assumes "rmap param_facts params = Inr facts"
  shows "get_reference_param params fnopts =
           Inr (reference_param_of (get_optional fnopts ref_param None) (zip params facts))"
  using ref_loop_eq [OF assms, of fnopts None None]
  by (simp add: get_reference_param_def reference_param_of_def split: option.splits)

theorem get_reference_param_priority_witness:
  "get_reference_param [param_out, param_tensors, param_dim] None = Inr (Some param_out)"
proof -
  have f: "rmap param_facts [param_out, param_tensors, param_dim]
             = Inr [(''out'', ''Tensor'', False), (''tensors'', ''TensorList'', False),
                    (''dim'', ''int64_t'', False)]"
    by (simp add: param_facts_def param_out_def param_tensors_def param_dim_def tk_def
        param_type_def unwrapped_core_type_def type_core_def is_core_type_def param_name_def
        py_getitem_def type_is_const_def)
  show ?thesis
    using get_reference_param_priority [OF f, of None]
    by (simp add: reference_param_of_def get_optional_def is_explicit_def
        is_self_or_const_tensor_def is_tensor_def is_options_like_def)
qed

text \<open>
  C3 as stated fails on the parameters of
  \<open>Tensor & cat_out(Tensor & out, TensorList tensors, int64_t dim)\<close>: no tensor is
  named \<open>self\<close> or is \<open>const\<close>; the stated order gives the tensor list \<open>tensors\<close>,
  the code gives the tensor \<open>out\<close>.
\<close>

theorem get_reference_param_counterexample:
  "get_parameters (reduce sig_cat_out_tree) = Inr [param_out, param_tensors, param_dim]
   \<and> rmap param_facts [param_out, param_tensors, param_dim]
       = Inr [(''out'', ''Tensor'', False), (''tensors'', ''TensorList'', False),
              (''dim'', ''int64_t'', False)]
   \<and> reference_param_as_specified None
        (zip [param_out, param_tensors, param_dim]
           [(''out'', ''Tensor'', False), (''tensors'', ''TensorList'', False),
            (''dim'', ''int64_t'', False)]) = Some param_tensors
   \<and> get_reference_param [param_out, param_tensors, param_dim] None = Inr (Some param_out)
   \<and> param_out \<noteq> param_tensors"
proof -
  have facts: "param_facts param_out = Inr (''out'', ''Tensor'', False)"
    "param_facts param_tensors = Inr (''tensors'', ''TensorList'', False)"
    "param_facts param_dim = Inr (''dim'', ''int64_t'', False)"
    by (simp_all add: param_facts_def param_out_def param_tensors_def param_dim_def tk_def
        param_type_def unwrapped_core_type_def type_core_def is_core_type_def param_name_def
        py_getitem_def type_is_const_def)
  have params: "get_parameters (reduce sig_cat_out_tree) = Inr [param_out, param_tensors, param_dim]"
    by (simp add: sig_cat_out_tree_def get_parameters_def py_getitem_def anonymous_def
        named_terminals_def tk_def param_out_def param_tensors_def param_dim_def)
  have loop: "get_reference_param [param_out, param_tensors, param_dim] None = Inr (Some param_out)"
    using ref_loop_eq [of "[param_out, param_tensors, param_dim]" _ None None None]
    by (simp add: facts get_reference_param_def get_optional_def is_explicit_def
        is_self_or_const_tensor_def is_tensor_def is_options_like_def)
  have ne: "param_out \<noteq> param_tensors"
    by (simp add: param_out_def param_tensors_def)
  show ?thesis
    by (simp add: params facts loop ne reference_param_as_specified_def is_explicit_def
        is_self_or_const_tensor_def is_tensor_def is_options_like_def)
qed

section \<open>The delegated call\<close>

lemma startswith_iff: "startswith s sub \<longleftrightarrow> (\<exists>b. s = sub @ b)"
  unfolding startswith_def
  by (metis append_eq_conv_conj append_take_drop_id)

lemma occurs_in_Cons:
  "occurs_in sub (c # cs) \<longleftrightarrow> startswith (c # cs) sub \<or> occurs_in sub cs"
proof
  assume "occurs_in sub (c # cs)"
  then obtain a b where ab: "c # cs = a @ sub @ b" by (auto simp: occurs_in_def)
  show "startswith (c # cs) sub \<or> occurs_in sub cs"
  proof (cases a)
    case Nil
    with ab show ?thesis by (auto simp: startswith_iff)
  next
    case (Cons x a')
    with ab have "cs = a' @ sub @ b" by simp
    then show ?thesis by (auto simp: occurs_in_def)
  qed
next
  assume "startswith (c # cs) sub \<or> occurs_in sub cs"
  then show "occurs_in sub (c # cs)"
  proof
    assume "startswith (c # cs) sub"
    then obtain b where "c # cs = [] @ sub @ b" by (auto simp: startswith_iff)
    then show ?thesis unfolding occurs_in_def by blast
  next
    assume "occurs_in sub cs"
    then obtain a b where "cs = a @ sub @ b" by (auto simp: occurs_in_def)
    then have "c # cs = (c # a) @ sub @ b" by simp
    then show ?thesis unfolding occurs_in_def by blast
  qed
qed

lemma find_from_nonneg: "0 \<le> i \<Longrightarrow> (0 \<le> find_from sub i s) = occurs_in sub s"
proof (induction s arbitrary: i)
  case Nil
  then show ?case by (auto simp: occurs_in_def)
next
  case (Cons c cs)
  from Cons.prems have "0 \<le> i + 1" by simp
  from Cons.IH [OF this] Cons.prems show ?case
    by (simp add: occurs_in_Cons)
qed

lemma py_find_occurs: "(0 \<le> py_find s sub) = occurs_in sub s"
  by (simp add: py_find_def find_from_nonneg)

lemma member_not_free:
  assumes "CHR ''('' \<notin> set r" "CHR ''('' \<notin> set fname"
  shows "r @ ''.'' @ fname @ ''('' @ x \<noteq> ''at::'' @ fname @ ''('' @ y"
proof
  assume eq: "r @ ''.'' @ fname @ ''('' @ x = ''at::'' @ fname @ ''('' @ y"
  have l: "takeWhile (\<lambda>c. c \<noteq> CHR ''('') (r @ ''.'' @ fname @ ''('' @ x) = r @ ''.'' @ fname"
    using assms by (simp add: takeWhile_tail [symmetric]) (simp add: takeWhile_append)
  have r: "takeWhile (\<lambda>c. c \<noteq> CHR ''('') (''at::'' @ fname @ ''('' @ y) = ''at::'' @ fname"
    using assms by (simp add: takeWhile_append)
  from eq l r have "(r @ ''.'') @ fname = ''at::'' @ fname" by simp
  then have "r @ ''.'' = ''at::''" by (simp only: append_same_eq)
  then have "last (r @ ''.'') = last ''at::''" by simp
  then show False by simp
qed

text \<open>
  The call that \<open>get_handling_function\<close> builds, with the converted reference
  parameter \<open>r\<close> among the converted parameters (names hold no parenthesis).
\<close>

lemma get_handling_function_cases:
  assumes "r \<in> set param_vars" and "CHR ''('' \<notin> set r" and "CHR ''('' \<notin> set fname"
  shows "(get_handling_function ctx fname (Some r) param_vars
            = Inr (''at::'' @ fname @ ''('' @ join '', '' param_vars @ '')''))
           = occurs_in ('' '' @ fname @ ''('') (functions_data ctx)
         \<and> (\<not> occurs_in ('' '' @ fname @ ''('') (functions_data ctx) \<longrightarrow>
              get_handling_function ctx fname (Some r) param_vars
                = Inr (r @ ''.'' @ fname @ ''('' @ join '', '' (remove1 r param_vars) @ '')''))"
  using assms member_not_free [OF assms(2,3)]
  by (simp add: get_handling_function_def XLA_FUNCTIONS_def truthy_def get_function_def
      py_find_occurs fmt_def)



























section \<open>The out-variant strategy\<close>

lemma copy_loop:
  "n \<le> length pvs \<Longrightarrow>
   rfold (\<lambda>c i. rbind (py_getitem pvs (int i)) (\<lambda>v. Inr (c @ g v i))) [0 ..< n] c0
     = Inr (c0 @ concat (map (\<lambda>i. g (pvs ! i) i) [0 ..< n]))"
  by (induction n) (simp_all add: rfold_append py_getitem_nat)

lemma return_loop:
  "n \<le> length pvs \<Longrightarrow>
   rfold (\<lambda>c i. rbind (py_getitem pvs (int i)) (\<lambda>v. Inr ((if i > 0 then c @ '', '' else c) @ v)))
     [0 ..< n] c0
     = Inr (c0 @ join '', '' (take n pvs))"
proof (induction n)
  case 0
  then show ?case by simp
next
  case (Suc n)
  then have n: "n < length pvs" by simp
  show ?case
  proof (cases "n = 0")
    case True
    with n show ?thesis by (cases pvs) (simp_all add: py_getitem_def)
  next
    case False
    with n have "take n pvs \<noteq> []" by auto
    with Suc n False show ?thesis
      by (simp add: rfold_append py_getitem_nat take_Suc_conv_app_nth join_snoc)
  qed
qed

lemma generate_aten_out_closed_form:
  assumes t: "t = Tree d (rtype # rest)"
    and core: "type_core rtype = Inr ctype"
    and types: "ctype = ''std::tuple'' \<Longrightarrow> get_template_type_list rtype = Inr types"
    and n: "n = (if ctype = ''std::tuple'' then length types else 1)"
    and debug: "generate_entry_debug_code t fname params None = Inr debug"
    and names: "get_param_names params = Inr pvs"
    and enough: "n \<le> length pvs"
    and tmpl: "outfn_template fnopts = None"
    and out: "match_out fname = Some stem"
    and rts: "ctype = ''std::tuple'' \<Longrightarrow> get_return_type_str rwx rws = Inr rtype_str"
  shows "generate_aten_out lib ctx t rwx fname sg rws params fnopts
           = Inr (out_variant_body sg debug fname stem (ctype = ''std::tuple'') n pvs rtype_str)"
proof -
  have debug': "generate_entry_debug_code (Tree d (rtype # rest)) fname params None = Inr debug"
    using debug t by simp
  have "generate_aten_out lib ctx (Tree d (rtype # rest)) rwx fname sg rws params fnopts
           = Inr (out_variant_body sg debug fname stem (ctype = ''std::tuple'') n pvs rtype_str)"
  proof (cases "ctype = ''std::tuple''")
    case True
    with n have n': "n = length types" by simp
    from enough n' have "length types \<le> length pvs" by simp
    note loops = copy_loop [OF this] return_loop [OF this]
    show ?thesis
      using True types rts debug' names tmpl out core
      by (simp add: generate_aten_out_def py_getitem_0 loops n' out_variant_body_def
          out_variant_prefix_def out_variant_result_def create_call_def
          generate_exit_debug_code_def)
  next
    case False
    with n have n': "n = 1" by simp
    with enough obtain v vs where pvs: "pvs = v # vs" by (cases pvs) auto
    show ?thesis
      using False debug' names tmpl out core
      by (simp add: generate_aten_out_def py_getitem_0 n' pvs out_variant_body_def
          out_variant_prefix_def out_variant_result_def create_call_def
          generate_exit_debug_code_def)
  qed
  then show ?thesis by (simp add: t)
qed

text \<open>Evaluating the wrapper of the example with a tuple of one output.\<close>

lemma tuple_out_reduced:
  "reduce sig_tuple_out_tree =
     Tree ''start'' (tuple_out_rtype
       # [Tree ''fnname'' [tk ''CNAME'' ''abs_out'' 22],
          Tree ''params'' [tuple_out_param_out, Tree ''params'' [tuple_out_param_self]]])"
  by (simp add: sig_tuple_out_tree_def tuple_out_rtype_def tuple_out_param_out_def
      tuple_out_param_self_def anonymous_def named_terminals_def tk_def)

lemma tuple_out_facts:
  "type_core tuple_out_rtype = Inr ''std::tuple''"
  "get_template_type_list tuple_out_rtype
     = Inr [Tree ''type'' [Tree ''core_type'' [tk ''TNAME'' ''Tensor'' 12],
                           Tree ''refspec'' [tk ''REF'' ''&'' 19]]]"
  "get_param_names [tuple_out_param_out, tuple_out_param_self] = Inr [''out'', ''self'']"
  "generate_entry_debug_code (reduce sig_tuple_out_tree) ''abs_out''
     [tuple_out_param_out, tuple_out_param_self] None = Inr debug_tuple_out"
  "get_return_type_str rwsig_tuple_out_tree rwsig_tuple_out = Inr ''std::tuple<at::Tensor &>''"
  "match_out ''abs_out'' = Some ''abs''"
  by (simp_all add: tuple_out_rtype_def tuple_out_param_out_def tuple_out_param_self_def
      type_core_def is_core_type_def get_template_type_list_def py_getitem_def tk_def
      get_param_names_def param_name_def generate_entry_debug_code_def param_type_def
      debug_tuple_out_def get_return_type_str_def rwsig_tuple_out_tree_def rwsig_tuple_out_def
      py_slice_def match_out_def)

text \<open>
  C4, as the code has it.  For a function whose name ends in \<open>_out\<close>, with no
  template in its options and at least \<open>n\<close> parameters, where \<open>n\<close> is the arity of
  the return type if it is a \<open>std::tuple\<close> and 1 otherwise, the body calls the
  function without the suffix on the parameters from position \<open>n\<close> on, then copies the
  result (element \<open>i\<close> of it, for a tuple) into parameter \<open>i\<close> for each \<open>i\<close> below
  \<open>n\<close>, and returns the first parameter when the return type is no tuple, and the
  return type applied to the first \<open>n\<close> parameters when it is one.
\<close>

theorem generate_aten_out_body:
  assumes "t = Tree d (rtype # rest)"
    and "type_core rtype = Inr ctype"
    and "ctype = ''std::tuple'' \<Longrightarrow> get_template_type_list rtype = Inr types"
    and "n = (if ctype = ''std::tuple'' then length types else 1)"
    and "generate_entry_debug_code t fname params None = Inr debug"
    and "get_param_names params = Inr pvs"
    and "n \<le> length pvs"
    and "outfn_template fnopts = None"
    and "match_out fname = Some stem"
    and "ctype = ''std::tuple'' \<Longrightarrow> get_return_type_str rwx rws = Inr rtype_str"
  shows "generate_aten_out lib ctx t rwx fname sg rws params fnopts
           = Inr (out_variant_body sg debug fname stem (ctype = ''std::tuple'') n pvs rtype_str)"
  using assms by (rule generate_aten_out_closed_form)

theorem generate_aten_out_body_witness:
  "generate_aten_out (table_library []) \<lparr>functions_data = []\<rparr> (reduce sig_tuple_out_tree)
     rwsig_tuple_out_tree ''abs_out'' cppsig_tuple_out rwsig_tuple_out
     [tuple_out_param_out, tuple_out_param_self] FuncOpts_default
   = Inr (cppsig_tuple_out @ '' {\<newline>'' @ debug_tuple_out
          @ ''  auto abs_out_tmp = AtenXlaType::abs(self);\<newline>''
          @ ''  bridge::XlaUpdateTensors({out}, {std::get<0>(abs_out_tmp)}, {0});\<newline>''
          @ ''  return std::tuple<at::Tensor &>(out);\<newline>}'')"
proof -
  have n: "(1::nat) = (if ''std::tuple'' = ''std::tuple''
                      then length [Tree ''type'' [Tree ''core_type'' [tk ''TNAME'' ''Tensor'' 12],
                                                  Tree ''refspec'' [tk ''REF'' ''&'' 19]]]
                      else 1)"
    and e: "(1::nat) \<le> length [''out'', ''self'']"
    and o: "outfn_template FuncOpts_default = None"
    by (simp_all add: FuncOpts_default_def)
  show ?thesis
    using generate_aten_out_body [OF tuple_out_reduced tuple_out_facts(1) tuple_out_facts(2) n
        tuple_out_facts(4) tuple_out_facts(3) e o tuple_out_facts(6) tuple_out_facts(5),
        of "table_library []" "\<lparr>functions_data = []\<rparr>" cppsig_tuple_out]
    by (simp add: out_variant_body_def out_variant_prefix_def out_variant_result_def
        generate_outfn_result_copy_def str_nat_digit)
qed

text \<open>
  C4 as stated fails for a tuple of one output: for
  \<open>std::tuple<Tensor &> abs_out(Tensor & out, const Tensor & self)\<close> the claim has the
  wrapper return the parameter \<open>out\<close>, the code makes it return
  \<open>std::tuple<at::Tensor &>(out)\<close>.
\<close>

theorem generate_aten_out_counterexample:
  "generate_aten_out (table_library []) \<lparr>functions_data = []\<rparr> (reduce sig_tuple_out_tree)
     rwsig_tuple_out_tree ''abs_out'' cppsig_tuple_out rwsig_tuple_out
     [tuple_out_param_out, tuple_out_param_self] FuncOpts_default
   \<noteq> Inr (out_variant_body_as_specified cppsig_tuple_out debug_tuple_out ''abs_out'' ''abs''
            True 1 [''out'', ''self''] ''std::tuple<at::Tensor &>'')"
proof -
  have n: "(1::nat) = (if ''std::tuple'' = ''std::tuple''
                      then length [Tree ''type'' [Tree ''core_type'' [tk ''TNAME'' ''Tensor'' 12],
                                                  Tree ''refspec'' [tk ''REF'' ''&'' 19]]]
                      else 1)"
    and e: "(1::nat) \<le> length [''out'', ''self'']"
    and o: "outfn_template FuncOpts_default = None"
    by (simp_all add: FuncOpts_default_def)
  show ?thesis
    using generate_aten_out_closed_form [OF tuple_out_reduced tuple_out_facts(1)
        tuple_out_facts(2) n tuple_out_facts(4) tuple_out_facts(3) e o tuple_out_facts(6)
        tuple_out_facts(5), of "table_library []" "\<lparr>functions_data = []\<rparr>" cppsig_tuple_out]
    by (simp add: out_variant_body_def out_variant_body_as_specified_def)
qed

section \<open>Emitting a tree whose tokens lie in the source\<close>


lemma for_every_token_emit: "for_every_token t advance e = foldl advance e (tokens_of t)"
  by (simp add: for_every_token_def)

lemma emit_all_run:
  "emit_string t e emit_all = Inr (foldl advance e (tokens_of t))"
  "emit_children cs e emit_all = Inr (foldl advance e (concat (map tokens_of cs)))"
  by (induction t e "emit_all" and cs e "emit_all" rule: emit_string_emit_children.induct)
     (simp_all add: emit_all_def)

lemma py_slice_eq:
  "0 \<le> a \<Longrightarrow> a \<le> b \<Longrightarrow> b \<le> int (length s) \<Longrightarrow>
   py_slice s a b = take (nat (b - a)) (drop (nat a) s)"
  by (simp add: py_slice_def Let_def min_def)

lemma py_slice_append:
  assumes "0 \<le> a" "a \<le> b" "b \<le> c" "c \<le> int (length s)"
  shows "py_slice s a b @ py_slice s b c = py_slice s a c"
proof -
  have "take (nat (b - a)) (drop (nat a) s) @ take (nat (c - b)) (drop (nat b) s)
        = take (nat (c - a)) (drop (nat a) s)"
  proof -
    have nb: "nat b = nat a + nat (b - a)" using assms by simp
    have nc: "nat (c - a) = nat (b - a) + nat (c - b)" using assms by simp
    show ?thesis
      by (simp add: nb nc take_add drop_drop add.commute)
  qed
  with assms show ?thesis by (simp add: py_slice_eq)
qed

lemma py_slice_empty: "0 \<le> a \<Longrightarrow> a \<le> int (length s) \<Longrightarrow> py_slice s a a = []"
  by (simp add: py_slice_eq)

lemma covers_last:
  "covers gap S p ks \<Longrightarrow> ks \<noteq> [] \<Longrightarrow>
   p < end_column (last ks) - 1 \<and> end_column (last ks) - 1 \<le> int (length S)"
proof (induction ks arbitrary: p)
  case Nil
  then show ?case by simp
next
  case (Cons k ks)
  show ?case
  proof (cases ks)
    case Nil
    with Cons.prems show ?thesis by simp
  next
    case (Cons k' ks')
    with Cons.prems Cons.IH [of "end_column k - 1"] show ?thesis by force
  qed
qed

text \<open>Emitting a chain of tokens from a tracked position.\<close>

lemma advance_run_tracked:
  "covers gap S p ks \<Longrightarrow> sref e = S \<Longrightarrow> pos e = p \<Longrightarrow> ks \<noteq> [] \<Longrightarrow>
   foldl advance e ks = e\<lparr>sval := sval e @ py_slice S p (end_column (last ks) - 1),
                          pos := end_column (last ks) - 1\<rparr>"
proof (induction ks arbitrary: e p)
  case Nil
  then show ?case by simp
next
  case (Cons k ks)
  let ?s = "column k - 1" and ?f = "end_column k - 1"
  from Cons.prems have c: "0 \<le> p" "p \<le> ?s" "?s < ?f" "?f \<le> int (length S)"
    "tok_value k = py_slice S ?s ?f" "covers gap S ?f ks"
    by simp_all
  have a: "advance e k = e\<lparr>sval := sval e @ py_slice S p ?f, pos := ?f\<rparr>"
  proof (cases "p < ?s")
    case True
    with c Cons.prems show ?thesis
      by (simp add: advance_def Let_def py_slice_append [of p ?s ?f])
  next
    case False
    with c have "p = ?s" by simp
    with c Cons.prems show ?thesis by (simp add: advance_def Let_def)
  qed
  show ?case
  proof (cases ks)
    case Nil
    with a show ?thesis by simp
  next
    case (Cons k' ks')
    then have ne: "ks \<noteq> []" by simp
    have le: "?f \<le> end_column (last ks) - 1" and le2: "end_column (last ks) - 1 \<le> int (length S)"
      using covers_last [OF c(6) ne] by simp_all
    have "foldl advance (advance e k) ks
            = (advance e k)\<lparr>sval := sval (advance e k) @ py_slice S ?f (end_column (last ks) - 1),
                             pos := end_column (last ks) - 1\<rparr>"
      using Cons.IH [OF c(6) _ _ ne, of "advance e k"] a Cons.prems by simp
    with a c ne le le2 show ?thesis
      by (simp add: py_slice_append [of p ?f "end_column (last ks) - 1", symmetric])
  qed
qed

lemma advance_run_untracked:
  assumes "covers gap S p (k # ks)" "sref e = S" "pos e < 0"
  shows "foldl advance e (k # ks)
           = e\<lparr>sval := sval e @ py_slice S (column k - 1) (end_column (last (k # ks)) - 1),
                 pos := end_column (last (k # ks)) - 1\<rparr>"
proof -
  let ?s = "column k - 1" and ?f = "end_column k - 1"
  from assms have c: "0 \<le> p" "p \<le> ?s" "?s < ?f" "?f \<le> int (length S)"
    "tok_value k = py_slice S ?s ?f" "covers gap S ?f ks"
    by simp_all
  have a: "advance e k = e\<lparr>sval := sval e @ py_slice S ?s ?f, pos := ?f\<rparr>"
    using assms c by (simp add: advance_def Let_def)
  show ?thesis
  proof (cases "ks = []")
    case True
    with a show ?thesis by simp
  next
    case False
    have le: "?f < end_column (last ks) - 1" "end_column (last ks) - 1 \<le> int (length S)"
      using covers_last [OF c(6) False] by simp_all
    have "foldl advance (advance e k) ks
            = (advance e k)\<lparr>sval := sval (advance e k) @ py_slice S ?f (end_column (last ks) - 1),
                             pos := end_column (last ks) - 1\<rparr>"
      using advance_run_tracked [OF c(6) _ _ False, of "advance e k"] a assms by simp
    with a c False le show ?thesis
      by (simp add: py_slice_append [of ?s ?f "end_column (last ks) - 1", symmetric])
  qed
qed

lemma rewrite_sig_emit_all:
  assumes "covers gap S p (tokens_of t)" "tokens_of t \<noteq> []"
  shows "rewrite_sig t S emit_all
           = Inr (py_slice S (column (hd (tokens_of t)) - 1) (end_column (last (tokens_of t)) - 1))"
proof -
  from assms(2) obtain k ks where ks: "tokens_of t = k # ks" by (cases "tokens_of t") auto
  show ?thesis
    using advance_run_untracked [OF assms(1) [unfolded ks], of "StringEmit_init S"]
    by (simp add: rewrite_sig_def emit_all_run ks StringEmit_init_def)
qed


section \<open>Trees of the grammar\<close>


lemma shape_rule: "shape d ls \<Longrightarrow> d \<in> set rule_names"
  by (auto simp: shape_def rule_names_def split: if_splits)

lemma label_tree:
  assumes "conforms n" "label n = d" "d \<in> set rule_names"
  shows "\<exists>cs. n = Tree d cs"
proof (cases n)
  case (Token k)
  with assms show ?thesis
    by (auto simp: label_def rule_names_def named_terminals_def split: if_splits)
next
  case (Tree e cs)
  with assms show ?thesis by (simp add: label_def)
qed

lemma label_lit:
  assumes "conforms n" "label n = CHR 0x22 # v @ [CHR 0x22]"
  shows "\<exists>k. n = Token k \<and> tok_value k = v \<and> tok_type k \<notin> set named_terminals"
proof (cases n)
  case (Token k)
  with assms show ?thesis
    by (auto simp: label_def named_terminals_def split: if_splits)
next
  case (Tree e cs)
  with assms have "shape e (map label cs)" "e = CHR 0x22 # v @ [CHR 0x22]"
    by (simp_all add: label_def)
  then show ?thesis
    using shape_rule [of e "map label cs"] by (auto simp: rule_names_def)
qed

lemma label_term:
  assumes "conforms n" "label n = T" "T \<in> set named_terminals"
  shows "\<exists>k. n = Token k \<and> tok_type k = T \<and> token_ok k"
proof (cases n)
  case (Token k)
  with assms show ?thesis
    by (auto simp: label_def named_terminals_def split: if_splits)
next
  case (Tree e cs)
  with assms have "shape e (map label cs)" "e = T"
    by (simp_all add: label_def)
  then show ?thesis
    using shape_rule [of e "map label cs"] assms(3) by (auto simp: rule_names_def named_terminals_def)
qed

lemma tname_char_not_ws: "tname_char c \<Longrightarrow> \<not> lark_ws c"
  by (auto simp: tname_char_def lark_ws_def cname_char_def)

lemma first_ok_Tree: "first_ok c \<Longrightarrow> first_ok (Tree d (c # cs))"
  by (simp add: first_ok_def)

lemma first_ok_type:
  "conforms n \<Longrightarrow>
   label n \<in> set [''type'', ''core_type'', ''template'', ''TNAME'', ''CONST''] \<Longrightarrow> first_ok n"
proof (induction n)
  case (Token k)
  then have ty: "tok_type k = ''TNAME'' \<or> tok_type k = ''CONST''" and ok: "token_ok k"
    by (auto simp: label_def named_terminals_def split: if_splits)
  from ty show ?case
  proof
    assume t: "tok_type k = ''TNAME''"
    with ok have ne: "tok_value k \<noteq> []" and "list_all tname_char (tok_value k)"
      by (simp_all add: token_ok_def)
    then have "tname_char (hd (tok_value k))" by (cases "tok_value k") simp_all
    with ne t show ?thesis
      by (simp add: first_ok_def named_terminals_def tname_char_not_ws)
  next
    assume t: "tok_type k = ''CONST''"
    with ok have "tok_value k = ''const''" by (simp add: token_ok_def)
    with t show ?thesis
      by (simp add: first_ok_def named_terminals_def lark_ws_def)
  qed
next
  case (Tree d cs)
  from Tree.prems have sh: "shape d (map label cs)" and all: "list_all conforms cs"
    and d: "d \<in> set [''type'', ''core_type'', ''template'']"
    using shape_rule [of d "map label cs"]
    by (auto simp: label_def rule_names_def)
  from sh d obtain c rest where cs: "cs = c # rest"
    and lc: "label c \<in> set [''type'', ''core_type'', ''template'', ''TNAME'', ''CONST'']"
    by (auto simp: shape_def map_eq_Cons_conv split: if_splits)
  from all cs have "conforms c" by simp
  with Tree.IH [of c] cs lc have "first_ok c" by simp
  then show ?case unfolding cs by (rule first_ok_Tree)
qed

lemma start_children:
  assumes "conforms t" "label t = ''start''"
  shows "\<exists>ty fn lp ps rp.
           t = Tree ''start'' [ty, fn, Token lp, ps, Token rp]
           \<and> conforms ty \<and> label ty = ''type'' \<and> conforms fn \<and> label fn = ''fnname''
           \<and> tok_value lp = ''('' \<and> tok_type lp \<notin> set named_terminals
           \<and> conforms ps \<and> label ps = ''params''
           \<and> tok_value rp = '')'' \<and> tok_type rp \<notin> set named_terminals"
proof -
  from label_tree [OF assms] obtain cs where t: "t = Tree ''start'' cs"
    by (auto simp: rule_names_def)
  with assms(1) have sh: "shape ''start'' (map label cs)" and all: "list_all conforms cs"
    by simp_all
  from sh obtain ty fn l ps r where cs: "cs = [ty, fn, l, ps, r]"
    and lab: "label ty = ''type''" "label fn = ''fnname''" "label l = CHR 0x22 # ''('' @ [CHR 0x22]"
      "label ps = ''params''" "label r = CHR 0x22 # '')'' @ [CHR 0x22]"
    by (auto simp: shape_def map_eq_Cons_conv)
  from all cs have c: "conforms ty" "conforms fn" "conforms l" "conforms ps" "conforms r"
    by simp_all
  from label_lit [OF c(3) lab(3)] obtain lp where l: "l = Token lp" "tok_value lp = ''(''"
    "tok_type lp \<notin> set named_terminals" by auto
  from label_lit [OF c(5) lab(5)] obtain rp where r: "r = Token rp" "tok_value rp = '')''"
    "tok_type rp \<notin> set named_terminals" by auto
  show ?thesis
    using t cs lab c l r by auto
qed

lemma covers_weaken: "covers gap S p ks \<Longrightarrow> covers (\<lambda>c. True) S p ks"
  by (induction ks arbitrary: p) (simp_all add: list_all_iff)

lemma covers_earlier:
  "covers (\<lambda>c. True) S p ks \<Longrightarrow> 0 \<le> q \<Longrightarrow> q \<le> p \<Longrightarrow> covers (\<lambda>c. True) S q ks"
  by (cases ks) (auto simp: list_all_iff)

lemma covers_filter:
  "covers (\<lambda>c. True) S p ks \<Longrightarrow> covers (\<lambda>c. True) S p (filter P ks)"
proof (induction ks arbitrary: p)
  case Nil
  then show ?case by simp
next
  case (Cons k ks)
  then have c: "0 \<le> p" "p \<le> column k - 1" "column k - 1 < end_column k - 1"
    and rest: "covers (\<lambda>c. True) S (end_column k - 1) (filter P ks)"
    by simp_all
  show ?case
  proof (cases "P k")
    case True
    with Cons.prems rest show ?thesis by simp
  next
    case False
    from covers_earlier [OF rest, of p] c have "covers (\<lambda>c. True) S p (filter P ks)" by simp
    with False show ?thesis by simp
  qed
qed

lemma covers_after:
  "covers gap S p ks \<Longrightarrow> k \<in> set ks \<Longrightarrow> p \<le> column k - 1 \<and> column k - 1 < end_column k - 1"
proof (induction ks arbitrary: p)
  case Nil
  then show ?case by simp
next
  case (Cons a ks)
  show ?case
  proof (cases "k = a")
    case True
    with Cons.prems show ?thesis by simp
  next
    case False
    with Cons.prems have "k \<in> set ks" "covers gap S (end_column a - 1) ks"
      "p \<le> end_column a - 1" by simp_all
    with Cons.IH [of "end_column a - 1"] show ?thesis by simp
  qed
qed

lemma covers_before_last:
  "covers gap S p (ks @ [r]) \<Longrightarrow> k \<in> set ks \<Longrightarrow> end_column k - 1 \<le> column r - 1"
proof (induction ks arbitrary: p)
  case Nil
  then show ?case by simp
next
  case (Cons a ks)
  from Cons.prems have rest: "covers gap S (end_column a - 1) (ks @ [r])" by simp
  show ?case
  proof (cases "k = a")
    case True
    with covers_after [OF rest, of r] show ?thesis by simp
  next
    case False
    with Cons.prems have "k \<in> set ks" by simp
    with Cons.IH [OF rest] show ?thesis by simp
  qed
qed

lemma kept_tokens_reduce:
  "(if anonymous c then [] else tokens_of (reduce c))
     = filter (\<lambda>k. tok_type k \<in> set named_terminals) (tokens_of c)"
proof (induction c)
  case (Token k)
  then show ?case by (simp add: anonymous_def)
next
  case (Tree d cs)
  have "concat (map (\<lambda>c. tokens_of (reduce c)) (filter (\<lambda>c. \<not> anonymous c) cs))
          = filter (\<lambda>k. tok_type k \<in> set named_terminals) (concat (map tokens_of cs))"
    using Tree.IH
  proof (induction cs)
    case Nil
    then show ?case by simp
  next
    case (Cons c cs)
    from Cons.prems [of c] have c: "(if anonymous c then [] else tokens_of (reduce c))
      = filter (\<lambda>k. tok_type k \<in> set named_terminals) (tokens_of c)" by simp
    from Cons.IH Cons.prems have "concat (map (\<lambda>c. tokens_of (reduce c)) (filter (\<lambda>c. \<not> anonymous c) cs))
          = filter (\<lambda>k. tok_type k \<in> set named_terminals) (concat (map tokens_of cs))" by simp
    with c show ?case by (cases "anonymous c") simp_all
  qed
  then show ?case by (simp add: anonymous_def comp_def)
qed

lemma tokens_of_reduce:
  "tokens_of (reduce (Tree d cs))
     = filter (\<lambda>k. tok_type k \<in> set named_terminals) (tokens_of (Tree d cs))"
  using kept_tokens_reduce [of "Tree d cs"] by (simp add: anonymous_def)

lemma dropWhile_all: "list_all P a \<Longrightarrow> dropWhile P (a @ b) = dropWhile P b"
  by (induction a) simp_all

lemma strip_ws_core:
  assumes "list_all lark_ws a" "list_all lark_ws b" "core \<noteq> []"
    "\<not> lark_ws (hd core)" "\<not> lark_ws (last core)"
  shows "strip_ws (a @ core @ b) = core"
proof -
  from assms(3,4) have front: "dropWhile lark_ws (core @ b) = core @ b"
    by (cases core) simp_all
  from assms(2) have "list_all lark_ws (rev b)" by (simp add: list_all_iff)
  then have "dropWhile lark_ws (rev b @ rev core) = dropWhile lark_ws (rev core)"
    by (rule dropWhile_all)
  also from assms(3,5) have "\<dots> = rev core"
    by (cases "rev core") (simp_all add: last_rev [symmetric] hd_rev)
  finally show ?thesis
    using assms(1) by (simp add: strip_ws_def dropWhile_all front)
qed


lemma covers_end:
  "covers gap S p ks \<Longrightarrow> ks \<noteq> [] \<Longrightarrow> list_all gap (drop (nat (end_column (last ks) - 1)) S)"
proof (induction ks arbitrary: p)
  case Nil
  then show ?case by simp
next
  case (Cons k ks)
  from Cons.prems have rest: "covers gap S (end_column k - 1) ks" by simp
  show ?case
  proof (cases "ks = []")
    case True
    with rest show ?thesis by simp
  next
    case False
    with Cons.IH [OF rest] show ?thesis by simp
  qed
qed

lemma py_slice_take:
  assumes "0 \<le> a" "a \<le> b" "b \<le> c" "c \<le> int (length s)"
  shows "take (nat (b - a)) (py_slice s a c) = py_slice s a b"
  using assms by (simp add: py_slice_eq min_def)

lemma py_slice_length:
  "0 \<le> a \<Longrightarrow> a \<le> b \<Longrightarrow> b \<le> int (length s) \<Longrightarrow> length (py_slice s a b) = nat (b - a)"
  by (simp add: py_slice_eq)

lemma py_slice_split3:
  assumes "0 \<le> a" "a \<le> b" "b \<le> int (length s)"
  shows "s = py_slice s 0 a @ py_slice s a b @ drop (nat b) s"
proof -
  have "py_slice s 0 a @ py_slice s a b = py_slice s 0 b"
    using assms by (simp add: py_slice_append)
  moreover have "py_slice s 0 b = take (nat b) s"
    using assms by (simp add: py_slice_eq)
  ultimately show ?thesis by (metis append_assoc append_take_drop_id)
qed

text \<open>
  C2, as the code has it.  For a well-formed signature \<open>S\<close> and its tree with every
  token, emitting the tree with the decision function that emits everything gives
  \<open>S\<close> without the white space at its two ends: the emitter starts at the first token
  and stops at the last one.  Emitting the reduced tree gives the text of \<open>S\<close> from
  the start of the first token to the end of the last token that the reduced tree
  keeps.  That is a proper prefix of the former, of as many characters as lie between
  these two positions, since the reduced tree lacks at least the closing parenthesis.
\<close>

theorem rewrite_sig_round_trip:
  assumes "parse_of S t"
  shows "rewrite_sig t S emit_all = Inr (strip_ws S)
         \<and> rewrite_sig (reduce t) S emit_all
             = Inr (py_slice S (column (hd (tokens_of (reduce t))) - 1)
                      (end_column (last (tokens_of (reduce t))) - 1))
         \<and> py_slice S (column (hd (tokens_of (reduce t))) - 1)
               (end_column (last (tokens_of (reduce t))) - 1)
             = take (nat (end_column (last (tokens_of (reduce t)))
                          - column (hd (tokens_of (reduce t))))) (strip_ws S)
         \<and> nat (end_column (last (tokens_of (reduce t))) - column (hd (tokens_of (reduce t))))
             < length (strip_ws S)"
proof -
  from assms have conf: "conforms t" and lab: "label t = ''start''"
    and cov: "covers lark_ws S 0 (tokens_of t)"
    by (simp_all add: parse_of_def derives_def)
  from start_children [OF conf lab] obtain ty fn lp ps rp where
    t: "t = Tree ''start'' [ty, fn, Token lp, ps, Token rp]"
    and ty: "conforms ty" "label ty = ''type''"
    and rp: "tok_value rp = '')''" "tok_type rp \<notin> set named_terminals"
    by blast
  define ks where "ks = tokens_of ty @ tokens_of fn @ [lp] @ tokens_of ps"
  have toks: "tokens_of t = ks @ [rp]" by (simp add: t ks_def)
  from first_ok_type [OF ty(1)] ty(2) have fo: "first_ok ty" by simp
  then obtain k1 ks1 where tty: "tokens_of ty = k1 # ks1" and k1: "tok_type k1 \<in> set named_terminals"
    "tok_value k1 \<noteq> []" "\<not> lark_ws (hd (tok_value k1))"
    by (cases "tokens_of ty") (auto simp: first_ok_def)
  define ks' where "ks' = ks1 @ tokens_of fn @ [lp] @ tokens_of ps"
  have ks: "ks = k1 # ks'" by (simp add: ks_def ks'_def tty)
  let ?s1 = "column k1 - 1" and ?e1 = "end_column k1 - 1"
  let ?sL = "column rp - 1" and ?eL = "end_column rp - 1"
  from cov have cov1: "covers lark_ws S 0 (k1 # ks' @ [rp])" by (simp add: toks ks)
  then have g0: "list_all lark_ws (py_slice S 0 ?s1)" and s1: "0 \<le> ?s1" "?s1 < ?e1"
    and v1: "tok_value k1 = py_slice S ?s1 ?e1"
    and cov2: "covers lark_ws S ?e1 (ks' @ [rp])"
    by simp_all
  from covers_after [OF cov2, of rp] have e1: "?e1 \<le> ?sL" "?sL < ?eL" by simp_all
  from covers_last [OF cov2] have eL: "?eL \<le> int (length S)" by simp
  from covers_end [OF cov2] have gL: "list_all lark_ws (drop (nat ?eL) S)" by simp
  have vL: "tok_value rp = py_slice S ?sL ?eL"
  proof -
    have "\<And>p. covers lark_ws S p (ks' @ [rp]) \<Longrightarrow> tok_value rp = py_slice S ?sL ?eL"
      by (induction ks') auto
    from this [OF cov2] show ?thesis .
  qed
  define core where "core = py_slice S ?s1 ?eL"
  have core1: "core = tok_value k1 @ py_slice S ?e1 ?eL"
    using s1 e1 eL by (simp add: core_def v1 py_slice_append)
  have core2: "core = py_slice S ?s1 ?sL @ '')''"
    using s1 e1 eL vL rp by (simp add: core_def py_slice_append [symmetric, of ?s1 ?sL ?eL])
  have S: "S = py_slice S 0 ?s1 @ core @ drop (nat ?eL) S"
    unfolding core_def using s1 e1 eL by (intro py_slice_split3) simp_all
  have strip: "strip_ws S = core"
  proof -
    have "core \<noteq> []" "\<not> lark_ws (hd core)" using k1 by (simp_all add: core1)
    moreover have "\<not> lark_ws (last core)" by (simp add: core2 lark_ws_def)
    ultimately have "strip_ws (py_slice S 0 ?s1 @ core @ drop (nat ?eL) S) = core"
      using g0 gL by (intro strip_ws_core)
    with S show ?thesis by simp
  qed
  have full: "rewrite_sig t S emit_all = Inr core"
    using rewrite_sig_emit_all [OF cov] by (simp add: toks ks core_def)
  define ns where "ns = filter (\<lambda>k. tok_type k \<in> set named_terminals) ks'"
  have red: "tokens_of (reduce t) = k1 # ns"
    unfolding t tokens_of_reduce using rp k1 by (simp add: tty ks'_def ns_def)
  have covn: "covers (\<lambda>c. True) S 0 (k1 # ns)"
    using covers_filter [OF covers_weaken [OF cov], of "\<lambda>k. tok_type k \<in> set named_terminals"]
      rp k1 by (simp add: toks ks ns_def)
  let ?e' = "end_column (last (k1 # ns)) - 1"
  have part: "rewrite_sig (reduce t) S emit_all = Inr (py_slice S ?s1 ?e')"
    using rewrite_sig_emit_all [of "\<lambda>c. True" S 0 "reduce t"] covn by (simp add: red)
  have "last (k1 # ns) \<in> set (k1 # ks')"
    using last_in_set [of "k1 # ns"] by (auto simp: ns_def)
  with covers_before_last [of lark_ws S 0 "k1 # ks'" rp] cov1 have e'L: "?e' \<le> ?sL"
    by simp
  from covers_last [OF covn] have "0 < ?e'" by simp
  have s1e': "?s1 \<le> ?e'"
  proof (cases "ns = []")
    case True
    with s1 show ?thesis by simp
  next
    case False
    from covn have "covers (\<lambda>c. True) S ?e1 ns" by simp
    from covers_after [OF this, of "last ns"] False s1 show ?thesis by simp
  qed
  have tk: "take (nat (?e' - ?s1)) core = py_slice S ?s1 ?e'"
    unfolding core_def using s1 s1e' e'L e1 eL by (intro py_slice_take) simp_all
  have lt: "nat (?e' - ?s1) < length core"
    using s1 s1e' e'L e1 eL by (simp add: core_def py_slice_length)
  have n: "?e' - ?s1 = end_column (last (k1 # ns)) - column k1" by simp
  have hl: "hd (tokens_of (reduce t)) = k1" "last (tokens_of (reduce t)) = last (k1 # ns)"
    by (simp_all only: red list.sel)
  show ?thesis
    unfolding hl using full part strip tk [unfolded n] lt [unfolded n] by simp
qed


lemma sig_f_parse: "parse_of sig_f sig_f_tree" "parse_of (sig_f @ '' '') sig_f_tree"
  by (simp_all add: parse_of_def derives_def sig_f_tree_def sig_f_def tk_def label_def
      shape_def named_terminals_def token_ok_def tname_char_def cname_char_def py_slice_def lark_ws_def)

lemma sig_f_emitted:
  "rewrite_sig sig_f_tree (sig_f @ '' '') emit_all = Inr sig_f"
  "rewrite_sig (reduce sig_f_tree) sig_f emit_all = Inr ''Tensor f(Tensor a''"
  by (simp_all add: rewrite_sig_def sig_f_tree_def sig_f_def tk_def emit_all_def advance_def
      StringEmit_init_def py_slice_def anonymous_def named_terminals_def)

theorem rewrite_sig_round_trip_witness:
  "rewrite_sig sig_f_tree ''Tensor f(Tensor a) '' emit_all = Inr ''Tensor f(Tensor a)''
   \<and> rewrite_sig (reduce sig_f_tree) ''Tensor f(Tensor a) '' emit_all = Inr ''Tensor f(Tensor a''"
proof -
  have "strip_ws (sig_f @ '' '') = ''Tensor f(Tensor a)''"
    by (simp add: strip_ws_def sig_f_def lark_ws_def)
  moreover have "hd (tokens_of (reduce sig_f_tree)) = \<lparr>tok_type = ''TNAME'', tok_value = ''Tensor'', column = 1, end_column = 7\<rparr>"
    "last (tokens_of (reduce sig_f_tree)) = \<lparr>tok_type = ''CNAME'', tok_value = ''a'', column = 17, end_column = 18\<rparr>"
    by (simp_all add: sig_f_tree_def tk_def anonymous_def named_terminals_def)
  ultimately show ?thesis
    using rewrite_sig_round_trip [OF sig_f_parse(2)]
    by (simp add: sig_f_def py_slice_def)
qed

text \<open>
  C2 as stated fails: the reduced tree of \<open>Tensor f(Tensor a)\<close> is emitted without
  the closing parenthesis, and the tree with every token of the same signature followed
  by a space is emitted without that space.
\<close>

theorem rewrite_sig_counterexample:
  "parse_of sig_f sig_f_tree
   \<and> rewrite_sig (reduce sig_f_tree) sig_f emit_all \<noteq> Inr sig_f
   \<and> parse_of (sig_f @ '' '') sig_f_tree
   \<and> rewrite_sig sig_f_tree (sig_f @ '' '') emit_all \<noteq> Inr (sig_f @ '' '')"
  by (simp add: sig_f_parse sig_f_emitted) (simp add: sig_f_def)

section \<open>Emitting with skipped nodes\<close>


lemma no_empty_tokens: "no_empty t \<Longrightarrow> tokens_of t \<noteq> []"
proof (induction t)
  case (Token k)
  show ?case by simp
next
  case (Tree d cs)
  then obtain c cs' where "cs = c # cs'" "no_empty c" by (cases cs) auto
  with Tree.IH [of c] show ?case by simp
qed

lemma no_empty_last_match:
  "no_empty t \<Longrightarrow> last_match t = Inr (end_column (last (tokens_of t)) - 1)"
proof (induction t)
  case (Token k)
  show ?case by simp
next
  case (Tree d cs)
  then have ne: "cs \<noteq> []" and l: "no_empty (last cs)"
    by (auto simp: list_all_iff)
  from ne have cs: "cs = butlast cs @ [last cs]" by simp
  have "tokens_of (Tree d cs) = concat (map tokens_of (butlast cs)) @ tokens_of (last cs)"
    by (subst cs) simp
  with no_empty_tokens [OF l] Tree.IH [of "last cs"] ne l show ?case
    by simp
qed

lemma endpos_append: "endpos p (xs @ ys) = endpos (endpos p xs) ys"
  by (simp add: endpos_def)

lemma covers_append:
  "covers gap S p (xs @ ys) \<Longrightarrow> covers gap S (endpos p xs) ys"
proof (induction xs arbitrary: p)
  case Nil
  then show ?case by (simp add: endpos_def)
next
  case (Cons k xs)
  from Cons.prems have "covers gap S (end_column k - 1) (xs @ ys)" by simp
  from Cons.IH [OF this] show ?case by (auto simp: endpos_def)
qed

lemma filter_space_gap:
  "list_all space g \<Longrightarrow> filter (\<lambda>c. c \<noteq> CHR '' '') g = []"
  by (induction g) (simp_all add: space_def)

text \<open>One token, emitted or skipped.\<close>

lemma advance_kept:
  assumes "covers space S p (k # rest)" "sref e = S" "pos e < 0 \<or> pos e = p"
    "CHR '' '' \<notin> set (tok_value k)"
  shows "sref (advance e k) = S"
    "filter (\<lambda>c. c \<noteq> CHR '' '') (sval (advance e k))
       = filter (\<lambda>c. c \<noteq> CHR '' '') (sval e) @ tok_value k"
    "pos (advance e k) = end_column k - 1"
proof -
  from assms(1) have g: "list_all space (py_slice S p (column k - 1))" by simp
  have v: "filter (\<lambda>c. c \<noteq> CHR '' '') (tok_value k) = tok_value k"
    using assms(4) by (auto simp: filter_id_conv)
  show "sref (advance e k) = S" using assms(2) by (simp add: advance_def Let_def)
  show "pos (advance e k) = end_column k - 1" by (simp add: advance_def Let_def)
  from assms(3) show "filter (\<lambda>c. c \<noteq> CHR '' '') (sval (advance e k))
       = filter (\<lambda>c. c \<noteq> CHR '' '') (sval e) @ tok_value k"
  proof
    assume "pos e < 0"
    then show ?thesis by (simp add: advance_def Let_def v)
  next
    assume "pos e = p"
    with assms(2) g show ?thesis
      by (simp add: advance_def Let_def v filter_space_gap)
  qed
qed

lemma emit_kept:
  fixes f :: "node \<Rightarrow> int"
  shows "\<forall>n. f n \<le> 0 \<Longrightarrow> no_empty t \<Longrightarrow> covers space S p (tokens_of t @ rest) \<Longrightarrow> sref e = S
     \<Longrightarrow> pos e < 0 \<or> pos e = p \<Longrightarrow> \<forall>k\<in>set (kept f t). CHR '' '' \<notin> set (tok_value k)
     \<Longrightarrow> \<exists>e'. emit_string t e f = Inr e' \<and> sref e' = S
            \<and> filter (\<lambda>c. c \<noteq> CHR '' '') (sval e')
                = filter (\<lambda>c. c \<noteq> CHR '' '') (sval e) @ concat (map tok_value (kept f t))
            \<and> (pos e' < 0 \<or> pos e' = endpos p (tokens_of t))"
    and "\<forall>n. f n \<le> 0 \<Longrightarrow> list_all no_empty cs \<Longrightarrow> covers space S p (concat (map tokens_of cs) @ rest) \<Longrightarrow> sref e = S
     \<Longrightarrow> pos e < 0 \<or> pos e = p
     \<Longrightarrow> \<forall>k\<in>set (concat (map (kept f) cs)). CHR '' '' \<notin> set (tok_value k)
     \<Longrightarrow> \<exists>e'. emit_children cs e f = Inr e' \<and> sref e' = S
            \<and> filter (\<lambda>c. c \<noteq> CHR '' '') (sval e')
                = filter (\<lambda>c. c \<noteq> CHR '' '') (sval e) @ concat (map tok_value (concat (map (kept f) cs)))
            \<and> (pos e' < 0 \<or> pos e' = endpos p (concat (map tokens_of cs)))"
proof (induction t e f and cs e f arbitrary: p rest and p rest rule: emit_string_emit_children.induct)
  case (1 k e emit_fn)
  from "1.prems"(1) have le: "emit_fn (Token k) \<le> 0" by simp
  show ?case
  proof (cases "emit_fn (Token k) < 0")
    case True
    with "1.prems"(5) show ?thesis
      by (auto simp: skip_def endpos_def "1.prems"(4))
  next
    case False
    with le have z: "emit_fn (Token k) = 0" by simp
    from "1.prems"(3) have c: "covers space S p (k # rest)" by simp
    from "1.prems"(6) z have v: "CHR '' '' \<notin> set (tok_value k)" by simp
    from advance_kept [OF c "1.prems"(4) "1.prems"(5) v] z show ?thesis
      by (simp add: endpos_def)
  qed
next
  case (2 d cs e emit_fn)
  from "2.prems"(1) have le: "emit_fn (Tree d cs) \<le> 0" by simp
  show ?case
  proof (cases "emit_fn (Tree d cs) < 0")
    case True
    have ne: "tokens_of (Tree d cs) \<noteq> []" by (rule no_empty_tokens [OF "2.prems"(2)])
    then have "endpos p (tokens_of (Tree d cs)) = end_column (last (tokens_of (Tree d cs))) - 1"
      by (simp only: endpos_def if_False)
    with no_empty_last_match [OF "2.prems"(2)]
    have "last_match (Tree d cs) = Inr (endpos p (tokens_of (Tree d cs)))"
      by (simp only:)
    with True "2.prems"(5) show ?thesis
      by (auto simp: skip_def "2.prems"(4))
  next
    case False
    with le have z: "emit_fn (Tree d cs) = 0" by simp
    have n: "\<not> 0 < emit_fn (Tree d cs)" using z by simp
    from "2.prems"(2) have a: "list_all no_empty cs" by simp
    from "2.prems"(3) have b: "covers space S p (concat (map tokens_of cs) @ rest)" by simp
    from "2.prems"(6) z have c: "\<forall>k\<in>set (concat (map (kept emit_fn) cs)). CHR '' '' \<notin> set (tok_value k)"
      by simp
    from "2.IH" [OF n z "2.prems"(1) a b "2.prems"(4) "2.prems"(5) c] z show ?thesis by simp
  qed
next
  case (3 e emit_fn)
  then show ?case by (simp add: endpos_def)
next
  case (4 c cs e emit_fn)
  from "4.prems"(2) have nc: "no_empty c" and ncs: "list_all no_empty cs" by simp_all
  from "4.prems"(3) have cov: "covers space S p (tokens_of c @ (concat (map tokens_of cs) @ rest))"
    by simp
  from "4.prems"(6) have vc: "\<forall>k\<in>set (kept emit_fn c). CHR '' '' \<notin> set (tok_value k)"
    and vcs: "\<forall>k\<in>set (concat (map (kept emit_fn) cs)). CHR '' '' \<notin> set (tok_value k)"
    by simp_all
  from "4.IH"(1) [OF "4.prems"(1) nc cov "4.prems"(4) "4.prems"(5) vc] obtain e1 where
    e1: "emit_string c e emit_fn = Inr e1" "sref e1 = S"
      "filter (\<lambda>c. c \<noteq> CHR '' '') (sval e1)
         = filter (\<lambda>c. c \<noteq> CHR '' '') (sval e) @ concat (map tok_value (kept emit_fn c))"
      "pos e1 < 0 \<or> pos e1 = endpos p (tokens_of c)"
    by blast
  from covers_append [OF cov]
  have cov': "covers space S (endpos p (tokens_of c)) (concat (map tokens_of cs) @ rest)" .
  from "4.IH"(2) [OF "4.prems"(1) ncs cov' e1(2) e1(4) vcs] obtain e2 where
    e2: "emit_children cs e1 emit_fn = Inr e2" "sref e2 = S"
      "filter (\<lambda>c. c \<noteq> CHR '' '') (sval e2)
         = filter (\<lambda>c. c \<noteq> CHR '' '') (sval e1)
           @ concat (map tok_value (concat (map (kept emit_fn) cs)))"
      "pos e2 < 0 \<or> pos e2 = endpos (endpos p (tokens_of c)) (concat (map tokens_of cs))"
    by blast
  show ?case
    using e1 e2 by (simp add: endpos_append)
qed


section \<open>The pieces of a canonical key\<close>


lemma name_not_punct: "name_piece v \<Longrightarrow> \<not> punct_piece v"
  by (cases v) (auto simp: name_piece_def punct_piece_def split: list.splits)

lemma punct_not_name: "punct_piece v \<Longrightarrow> \<not> name_piece v"
  using name_not_punct by blast

lemma no_adjacent_sep:
  "no_adjacent A \<Longrightarrow> no_adjacent B \<Longrightarrow> \<not> name_piece s \<Longrightarrow> no_adjacent (A @ s # B)"
proof (induction A rule: no_adjacent.induct)
  case 1
  then show ?case by (cases B) simp_all
next
  case (2 v)
  then show ?case by (cases B) simp_all
next
  case (3 v w r)
  then show ?case by simp
qed

lemma no_adjacent_Cons:
  "no_adjacent B \<Longrightarrow> \<not> name_piece s \<Longrightarrow> no_adjacent (s # B)"
  by (cases B) simp_all

lemma inner_lits: "inner_piece '',''" "inner_piece ''<''" "inner_piece ''>''"
  "\<not> name_piece '',''" "\<not> name_piece ''<''" "\<not> name_piece ''>''"
  by (simp_all add: inner_piece_def name_piece_def tname_char_def cname_char_def)

lemma good_single: "name_piece v \<Longrightarrow> good [v]"
  by (simp add: good_def inner_piece_def)

lemma good_comma: "good A \<Longrightarrow> good B \<Longrightarrow> good (A @ '','' # B)"
  by (auto simp: good_def inner_lits no_adjacent_sep)

lemma good_template: "name_piece v \<Longrightarrow> good B \<Longrightarrow> good (v # ''<'' # B @ [''>''])"
proof -
  assume v: "name_piece v" and B: "good B"
  have "no_adjacent (B @ ''>'' # [])" using B by (intro no_adjacent_sep) (simp_all add: good_def inner_lits)
  then have "no_adjacent (''<'' # B @ [''>''])" by (intro no_adjacent_Cons) (simp_all add: inner_lits)
  then have "no_adjacent (v # ''<'' # B @ [''>''])" by (simp add: inner_lits)
  with v B show ?thesis
    by (simp add: good_def inner_lits inner_piece_def)
qed

lemma pieces_of_name:
  assumes "name_piece v" "r = [] \<or> \<not> tname_char (hd r)"
  shows "pieces_of (v @ r) = v # pieces_of r"
proof -
  from assms(1) obtain c v' where v: "v = c # v'" and c: "tname_char c" and all: "list_all tname_char v"
    by (cases v) (auto simp: name_piece_def)
  have tw: "takeWhile tname_char (v @ r) = v"
    using assms(2) all by (cases r) (simp_all add: takeWhile_append list_all_iff)
  have dw: "dropWhile tname_char (v @ r) = r"
    using assms(2) all by (cases r) (simp_all add: dropWhile_append list_all_iff)
  have "pieces_of (c # (v' @ r)) = takeWhile tname_char (c # (v' @ r)) # pieces_of (dropWhile tname_char (c # (v' @ r)))"
    using c by (simp add: pieces_of.simps)
  with tw dw v show ?thesis by simp
qed

lemma pieces_of_punct:
  assumes "punct_piece v" shows "pieces_of (v @ r) = v # pieces_of r"
  using assms by (cases v) (auto simp: punct_piece_def pieces_of.simps split: list.splits)

lemma pieces_of_concat:
  "list_all (\<lambda>v. name_piece v \<or> punct_piece v) L \<Longrightarrow> no_adjacent L \<Longrightarrow> pieces_of (concat L) = L"
proof (induction L rule: no_adjacent.induct)
  case 1
  show ?case by (simp add: pieces_of.simps)
next
  case (2 v)
  then have "name_piece v \<or> punct_piece v" by simp
  then show ?case
  proof
    assume "name_piece v"
    from pieces_of_name [OF this, of "[]"] show ?thesis by (simp add: pieces_of.simps)
  next
    assume "punct_piece v"
    from pieces_of_punct [OF this, of "[]"] show ?thesis by (simp add: pieces_of.simps)
  qed
next
  case (3 v w r)
  then have IH: "pieces_of (concat (w # r)) = w # r" and vw: "\<not> (name_piece v \<and> name_piece w)"
    and v: "name_piece v \<or> punct_piece v" and w: "name_piece w \<or> punct_piece w"
    by simp_all
  from v show ?case
  proof
    assume nv: "name_piece v"
    with vw w have "punct_piece w" by blast
    then have "\<not> tname_char (hd (concat (w # r)))"
      by (cases w) (auto simp: punct_piece_def split: list.splits)
    from pieces_of_name [OF nv, of "concat (w # r)"] this IH show ?thesis by simp
  next
    assume "punct_piece v"
    from pieces_of_punct [OF this, of "concat (w # r)"] IH show ?thesis by simp
  qed
qed


section \<open>What the map-key projection keeps of a tree of the grammar\<close>


lemma kv_Token:
  "kv (Token k) = (if tok_type k = ''CONST'' \<or> tok_type k = ''REF'' \<or> tok_type k = ''PTR''
                   then [] else [tok_value k])"
  by (simp add: kv_def create_map_sig_emit_fn_def)

lemma kv_Tree:
  "kv (Tree d cs) = (if d = ''param_name'' \<or> d = ''param_defval'' then [] else concat (map kv cs))"
  by (simp add: kv_def [abs_def] create_map_sig_emit_fn_def map_concat comp_def)

lemma type_names_Token:
  "type_names (Token k) = (if tok_type k = ''TNAME'' then [tok_value k] else [])"
  by (simp add: type_names_def)

lemma type_names_Tree: "type_names (Tree d cs) = concat (map type_names cs)"
  by (simp add: type_names_def [abs_def] map_concat filter_concat comp_def)

lemma conforms_children:
  "conforms (Tree d cs) \<Longrightarrow> shape d (map label cs) \<and> (\<forall>c\<in>set cs. conforms c)"
  by (simp add: list_all_iff)

text \<open>The nodes without recursion.\<close>

lemma term_node:
  assumes "conforms n" "label n = T" "T \<in> set [''CONST'', ''REF'', ''PTR'', ''CNAME'', ''NUMBER'',
    ''SIGNED_NUMBER'', ''HEXNUMBER'', ''ESCAPED_STRING'']"
  shows "type_names n = []" "T \<in> set [''CONST'', ''REF'', ''PTR''] \<Longrightarrow> kv n = []"
proof -
  from assms(3) have "T \<in> set named_terminals" by (auto simp: named_terminals_def)
  from label_term [OF assms(1,2) this] obtain k where k: "n = Token k" "tok_type k = T" by blast
  with assms(3) show "type_names n = []" by (auto simp: type_names_Token)
  from k show "T \<in> set [''CONST'', ''REF'', ''PTR''] \<Longrightarrow> kv n = []" by (auto simp: kv_Token)
qed

lemma tname_node:
  assumes "conforms n" "label n = ''TNAME''"
  shows "\<exists>v. kv n = [v] \<and> type_names n = [v] \<and> name_piece v"
proof -
  from label_term [OF assms, simplified named_terminals_def] obtain k where
    k: "n = Token k" "tok_type k = ''TNAME''" "token_ok k" by auto
  then show ?thesis
    by (simp add: kv_Token type_names_Token token_ok_def name_piece_def)
qed

lemma lit_node:
  assumes "conforms n" "label n = CHR 0x22 # v @ [CHR 0x22]"
  shows "kv n = [v]" "type_names n = []"
proof -
  from label_lit [OF assms] obtain k where k: "n = Token k" "tok_value k = v"
    "tok_type k \<notin> set named_terminals" by blast
  then show "kv n = [v]" "type_names n = []"
    by (auto simp: kv_Token type_names_Token named_terminals_def)
qed

lemma refspec_node:
  assumes "conforms n" "label n = ''refspec''"
  shows "kv n = []" "type_names n = []"
proof -
  from label_tree [OF assms] obtain cs where n: "n = Tree ''refspec'' cs"
    by (auto simp: rule_names_def)
  with assms(1) obtain c where cs: "cs = [c]" and c: "conforms c"
    "label c = ''REF'' \<or> label c = ''PTR''"
    by (auto simp: shape_def map_eq_Cons_conv)
  from c(2) have "kv c = [] \<and> type_names c = []"
    using term_node [OF c(1), of "label c"] by auto
  then show "kv n = []" "type_names n = []"
    by (simp_all add: n cs kv_Tree type_names_Tree)
qed

lemma param_name_node:
  assumes "conforms n" "label n = ''param_name''"
  shows "kv n = []" "type_names n = []"
proof -
  from label_tree [OF assms] obtain cs where n: "n = Tree ''param_name'' cs"
    by (auto simp: rule_names_def)
  with assms(1) obtain c where cs: "cs = [c]" and c: "conforms c" "label c = ''CNAME''"
    by (auto simp: shape_def map_eq_Cons_conv)
  from term_node(1) [OF c(1), of "label c"] c(2) have "type_names c = []" by simp
  then show "kv n = []" "type_names n = []"
    by (simp_all add: n cs kv_Tree type_names_Tree)
qed

lemma init_value_node:
  assumes "conforms n" "label n = ''init_value''"
  shows "type_names n = []"
proof -
  from label_tree [OF assms] obtain cs where n: "n = Tree ''init_value'' cs"
    by (auto simp: rule_names_def)
  with assms(1) obtain c where cs: "cs = [c]" and c: "conforms c"
    and l: "label c = CHR 0x22 # ''true'' @ [CHR 0x22] \<or> label c = CHR 0x22 # ''false'' @ [CHR 0x22]
      \<or> label c = CHR 0x22 # ''{}'' @ [CHR 0x22]
      \<or> label c \<in> set [''CONST'', ''REF'', ''PTR'', ''CNAME'', ''NUMBER'',
    ''SIGNED_NUMBER'', ''HEXNUMBER'', ''ESCAPED_STRING'']"
    by (auto simp: shape_def map_eq_Cons_conv)
  from l have "type_names c = []"
    using lit_node(2) [OF c] term_node(1) [OF c, of "label c"] by blast
  then show ?thesis by (simp add: n cs type_names_Tree)
qed

lemma param_defval_node:
  assumes "conforms n" "label n = ''param_defval''"
  shows "kv n = []" "type_names n = []"
proof -
  from label_tree [OF assms] obtain cs where n: "n = Tree ''param_defval'' cs"
    by (auto simp: rule_names_def)
  with assms(1) obtain a b where cs: "cs = [a, b]" and c: "conforms a" "conforms b"
    and l: "label a = CHR 0x22 # ''='' @ [CHR 0x22]" "label b = ''init_value''"
    by (auto simp: shape_def map_eq_Cons_conv)
  from lit_node(2) [OF c(1) l(1)] init_value_node [OF c(2) l(2)]
  show "kv n = []" "type_names n = []"
    by (simp_all add: n cs kv_Tree type_names_Tree)
qed



lemma shape_rules:
  "shape ''type'' ls \<longleftrightarrow> ls = [''core_type''] \<or> ls = [''CONST'', ''core_type'']
      \<or> ls = [''core_type'', ''refspec''] \<or> ls = [''CONST'', ''core_type'', ''refspec'']"
  "shape ''core_type'' ls \<longleftrightarrow> ls = [''template''] \<or> ls = [''TNAME'']"
  "shape ''template'' ls \<longleftrightarrow> ls = [''TNAME'', CHR 0x22 # ''<'' @ [CHR 0x22], ''typelist'', CHR 0x22 # ''>'' @ [CHR 0x22]]"
  "shape ''typelist'' ls \<longleftrightarrow> ls = [''type''] \<or> ls = [''type'', CHR 0x22 # '','' @ [CHR 0x22], ''typelist'']"
  "shape ''params'' ls \<longleftrightarrow> ls = [''param''] \<or> ls = [''param'', CHR 0x22 # '','' @ [CHR 0x22], ''params'']"
  "shape ''param'' ls \<longleftrightarrow> ls = [''type'', ''param_name''] \<or> ls = [''type'', ''param_name'', ''param_defval'']"
  by (simp_all add: shape_def)

lemma type_like_same:
  "kv n = kv c \<Longrightarrow> type_names n = type_names c \<Longrightarrow> type_like c \<Longrightarrow> type_like n"
  by (simp add: type_like_def)

lemma type_like_comma:
  assumes "kv n = kv a @ '','' # kv b" "type_names n = type_names a @ type_names b"
    "type_like a" "type_like b"
  shows "type_like n"
  using assms by (simp add: type_like_def good_comma inner_lits)

lemma type_like_template:
  assumes "kv n = v # ''<'' # kv b @ [''>'']" "type_names n = v # type_names b"
    "name_piece v" "type_like b"
  shows "type_like n"
  using assms by (simp add: type_like_def good_template inner_lits)

lemma type_like_name:
  assumes "kv n = [v]" "type_names n = [v]" "name_piece v"
  shows "type_like n"
  using assms by (simp add: type_like_def good_single)

lemma type_like_conforms:
  "conforms n \<Longrightarrow>
   label n \<in> set [''type'', ''core_type'', ''template'', ''typelist'', ''param'', ''params'']
   \<Longrightarrow> type_like n"
proof (induction n)
  case (Token k)
  then show ?case
    by (auto simp: label_def named_terminals_def split: if_splits)
next
  case (Tree d cs)
  from Tree.prems have sh: "shape d (map label cs)" and conf: "\<And>c. c \<in> set cs \<Longrightarrow> conforms c"
    and d: "d \<in> set [''type'', ''core_type'', ''template'', ''typelist'', ''param'', ''params'']"
    by (simp_all add: label_def list_all_iff)
  have kvd: "kv (Tree d cs) = concat (map kv cs)"
    using d by (auto simp: kv_Tree)
  note tnd = type_names_Tree [of d cs]
  have IH: "\<And>c. c \<in> set cs \<Longrightarrow>
      label c \<in> set [''type'', ''core_type'', ''template'', ''typelist'', ''param'', ''params'']
      \<Longrightarrow> type_like c"
    using Tree.IH conf by blast
  from d consider (ty) "d = ''type''" | (ct) "d = ''core_type''" | (te) "d = ''template''"
    | (tl) "d = ''typelist''" | (pa) "d = ''param''" | (ps) "d = ''params''"
    by auto
  then show ?case
  proof cases
    case ty
    with sh have "map label cs = [''core_type''] \<or> map label cs = [''CONST'', ''core_type'']
      \<or> map label cs = [''core_type'', ''refspec'']
      \<or> map label cs = [''CONST'', ''core_type'', ''refspec'']"
      by (simp add: shape_rules)
    then obtain pre c post where cs: "cs = pre @ c # post" and lc: "label c = ''core_type''"
      and pre: "\<forall>q\<in>set pre. label q = ''CONST''" and post: "\<forall>r\<in>set post. label r = ''refspec''"
    proof (elim disjE)
      assume "map label cs = [''core_type'']"
      then obtain c where "cs = [] @ c # []" "label c = ''core_type''" by (auto simp: map_eq_Cons_conv)
      then show ?thesis using that [of "[]" c "[]"] by simp
    next
      assume "map label cs = [''CONST'', ''core_type'']"
      then obtain q c where "cs = [q] @ c # []" "label c = ''core_type''" "label q = ''CONST''"
        by (auto simp: map_eq_Cons_conv)
      then show ?thesis using that [of "[q]" c "[]"] by simp
    next
      assume "map label cs = [''core_type'', ''refspec'']"
      then obtain c r where "cs = [] @ c # [r]" "label c = ''core_type''" "label r = ''refspec''"
        by (auto simp: map_eq_Cons_conv)
      then show ?thesis using that [of "[]" c "[r]"] by simp
    next
      assume "map label cs = [''CONST'', ''core_type'', ''refspec'']"
      then obtain q c r where "cs = [q] @ c # [r]" "label c = ''core_type''" "label q = ''CONST''"
        "label r = ''refspec''"
        by (auto simp: map_eq_Cons_conv)
      then show ?thesis using that [of "[q]" c "[r]"] by simp
    qed
    have "\<forall>q\<in>set pre. kv q = [] \<and> type_names q = []"
      using pre conf cs term_node [of _ "''CONST''"] by auto
    then have p0: "concat (map kv pre) = []" "concat (map type_names pre) = []" by simp_all
    have "\<forall>r\<in>set post. kv r = [] \<and> type_names r = []"
      using post conf cs refspec_node by auto
    then have q0: "concat (map kv post) = []" "concat (map type_names post) = []" by simp_all
    have tc: "type_like c" using IH [of c] cs lc by simp
    have k: "kv (Tree d cs) = kv c"
      by (subst kvd) (simp add: cs p0 q0)
    have n: "type_names (Tree d cs) = type_names c"
      by (subst tnd) (simp add: cs p0 q0)
    show ?thesis by (rule type_like_same [OF k n tc])
  next
    case ct
    with sh have "map label cs = [''template''] \<or> map label cs = [''TNAME'']"
      by (simp add: shape_rules)
    then obtain c where cs: "cs = [c]" and lc: "label c = ''template'' \<or> label c = ''TNAME''"
      by (auto simp: map_eq_Cons_conv)
    have same: "kv (Tree d cs) = kv c" "type_names (Tree d cs) = type_names c"
      by (simp_all add: kvd [unfolded cs] tnd [unfolded cs] cs)
    from lc show ?thesis
    proof
      assume "label c = ''template''"
      with IH [of c] cs have "type_like c" by simp
      with same show ?thesis by (rule type_like_same)
    next
      assume "label c = ''TNAME''"
      from tname_node [OF conf this] cs obtain v where "kv c = [v]" "type_names c = [v]"
        "name_piece v" by auto
      with same show ?thesis by (intro type_like_name [of _ v]) simp_all
    qed
  next
    case te
    with sh obtain a l b g where cs: "cs = [a, l, b, g]" and la: "label a = ''TNAME''"
      and ll: "label l = CHR 0x22 # ''<'' @ [CHR 0x22]" and lb: "label b = ''typelist''"
      and lg: "label g = CHR 0x22 # ''>'' @ [CHR 0x22]"
      by (auto simp: shape_rules map_eq_Cons_conv)
    from tname_node [OF conf la] cs obtain v where v: "kv a = [v]" "type_names a = [v]"
      "name_piece v" by auto
    have l: "kv l = [''<'']" "type_names l = []" using lit_node [OF conf ll] cs by simp_all
    have g: "kv g = [''>'']" "type_names g = []" using lit_node [OF conf lg] cs by simp_all
    have b: "type_like b" using IH [of b] cs lb by simp
    show ?thesis
      by (rule type_like_template [of _ v b]) (simp_all add: kvd [unfolded cs] tnd [unfolded cs] cs v l g b)
  next
    case tl
    with sh have "map label cs = [''type'']
      \<or> map label cs = [''type'', CHR 0x22 # '','' @ [CHR 0x22], ''typelist'']"
      by (simp add: shape_rules)
    then show ?thesis
    proof
      assume "map label cs = [''type'']"
      then obtain c where cs: "cs = [c]" and lc: "label c = ''type''"
        by (auto simp: map_eq_Cons_conv)
      with IH [of c] have "type_like c" by simp
      then show ?thesis by (rule type_like_same [rotated 2]) (simp_all add: kvd [unfolded cs] tnd [unfolded cs] cs)
    next
      assume "map label cs = [''type'', CHR 0x22 # '','' @ [CHR 0x22], ''typelist'']"
      then obtain a s b where cs: "cs = [a, s, b]" and la: "label a = ''type''"
        and ls: "label s = CHR 0x22 # '','' @ [CHR 0x22]" and lb: "label b = ''typelist''"
        by (auto simp: map_eq_Cons_conv)
      have s: "kv s = ['','']" "type_names s = []" using lit_node [OF conf ls] cs by simp_all
      have ab: "type_like a" "type_like b" using IH [of a] IH [of b] cs la lb by simp_all
      show ?thesis
        by (rule type_like_comma [of _ a b]) (simp_all add: kvd [unfolded cs] tnd [unfolded cs] cs s ab)
    qed
  next
    case pa
    with sh have "map label cs = [''type'', ''param_name'']
      \<or> map label cs = [''type'', ''param_name'', ''param_defval'']"
      by (simp add: shape_rules)
    then obtain c pn post where cs: "cs = c # pn # post" and lc: "label c = ''type''"
      and lpn: "label pn = ''param_name''" and post: "\<forall>r\<in>set post. label r = ''param_defval''"
      by (auto simp: map_eq_Cons_conv)
    have pn: "kv pn = []" "type_names pn = []" using param_name_node [OF conf lpn] cs by simp_all
    have "\<forall>r\<in>set post. kv r = [] \<and> type_names r = []"
      using post conf cs param_defval_node by auto
    then have q0: "concat (map kv post) = []" "concat (map type_names post) = []" by simp_all
    have "type_like c" using IH [of c] cs lc by simp
    then show ?thesis by (rule type_like_same [rotated 2]) (simp_all add: kvd [unfolded cs] tnd [unfolded cs] cs pn q0)
  next
    case ps
    with sh have "map label cs = [''param'']
      \<or> map label cs = [''param'', CHR 0x22 # '','' @ [CHR 0x22], ''params'']"
      by (simp add: shape_rules)
    then show ?thesis
    proof
      assume "map label cs = [''param'']"
      then obtain c where cs: "cs = [c]" and lc: "label c = ''param''"
        by (auto simp: map_eq_Cons_conv)
      with IH [of c] have "type_like c" by simp
      then show ?thesis by (rule type_like_same [rotated 2]) (simp_all add: kvd [unfolded cs] tnd [unfolded cs] cs)
    next
      assume "map label cs = [''param'', CHR 0x22 # '','' @ [CHR 0x22], ''params'']"
      then obtain a s b where cs: "cs = [a, s, b]" and la: "label a = ''param''"
        and ls: "label s = CHR 0x22 # '','' @ [CHR 0x22]" and lb: "label b = ''params''"
        by (auto simp: map_eq_Cons_conv)
      have s: "kv s = ['','']" "type_names s = []" using lit_node [OF conf ls] cs by simp_all
      have ab: "type_like a" "type_like b" using IH [of a] IH [of b] cs la lb by simp_all
      show ?thesis
        by (rule type_like_comma [of _ a b]) (simp_all add: kvd [unfolded cs] tnd [unfolded cs] cs s ab)
    qed
  qed
qed



lemma shape_nonempty: "shape d ls \<Longrightarrow> ls \<noteq> []"
  by (auto simp: shape_def split: if_splits)

lemma conforms_no_empty: "conforms n \<Longrightarrow> no_empty n"
proof (induction n)
  case (Token k)
  show ?case by simp
next
  case (Tree d cs)
  then have "shape d (map label cs)" "\<forall>c\<in>set cs. no_empty c" by (simp_all add: list_all_iff)
  with shape_nonempty [of d "map label cs"] show ?case by (simp add: list_all_iff)
qed

lemma map_sig_emit_fn_le: "\<forall>n. create_map_sig_emit_fn n \<le> 0"
  by (simp add: create_map_sig_emit_fn_def split: node.splits)

lemma cname_tname: "cname_char c \<Longrightarrow> tname_char c"
  by (simp add: tname_char_def)

lemma name_piece_no_space: "name_piece v \<Longrightarrow> CHR '' '' \<notin> set v"
  by (auto simp: name_piece_def list_all_iff tname_char_def cname_char_def)

lemma inner_piece_no_space: "inner_piece v \<Longrightarrow> CHR '' '' \<notin> set v"
  using name_piece_no_space by (auto simp: inner_piece_def)

lemma type_like_no_space:
  assumes "type_like n"
  shows "\<forall>k\<in>set (kept create_map_sig_emit_fn n). CHR '' '' \<notin> set (tok_value k)"
proof
  fix k assume "k \<in> set (kept create_map_sig_emit_fn n)"
  then have "tok_value k \<in> set (kv n)" by (simp add: kv_def)
  with assms have "inner_piece (tok_value k)" by (simp add: type_like_def good_def list_all_iff)
  then show "CHR '' '' \<notin> set (tok_value k)" by (rule inner_piece_no_space)
qed

lemma sig_parts:
  assumes "conforms t" "label t = ''start''"
  shows "\<exists>ty fk lp ps rp.
           t = Tree ''start'' [ty, Tree ''fnname'' [Token fk], Token lp, ps, Token rp]
           \<and> conforms ty \<and> label ty = ''type''
           \<and> tok_type fk = ''CNAME'' \<and> name_piece (tok_value fk)
           \<and> tok_type lp \<notin> set named_terminals
           \<and> conforms ps \<and> label ps = ''params''
           \<and> tok_type rp \<notin> set named_terminals"
proof -
  from start_children [OF assms] obtain ty fn lp ps rp where
    t: "t = Tree ''start'' [ty, fn, Token lp, ps, Token rp]"
    and ty: "conforms ty" "label ty = ''type''" and fn: "conforms fn" "label fn = ''fnname''"
    and lp: "tok_type lp \<notin> set named_terminals"
    and ps: "conforms ps" "label ps = ''params''"
    and rp: "tok_type rp \<notin> set named_terminals"
    by blast
  from label_tree [OF fn] obtain fcs where f: "fn = Tree ''fnname'' fcs"
    by (auto simp: rule_names_def)
  with fn(1) obtain c where fcs: "fcs = [c]" and c: "conforms c" "label c = ''CNAME''"
    by (auto simp: shape_def map_eq_Cons_conv)
  from label_term [OF c] obtain fk where fk: "c = Token fk" "tok_type fk = ''CNAME''" "token_ok fk"
    by (auto simp: named_terminals_def)
  from fk(2,3) have "name_piece (tok_value fk)"
    by (auto simp: token_ok_def name_piece_def list_all_iff cname_tname)
  with t ty f fcs fk lp ps rp show ?thesis by blast
qed



lemma create_map_sig_key:
  assumes t: "t = Tree ''start'' [ty, Tree ''fnname'' [Token fk], Token lp, ps, Token rp]"
    and ty: "conforms ty" "label ty = ''type''"
    and fk: "tok_type fk = ''CNAME''" "name_piece (tok_value fk)"
    and ps: "conforms ps" "label ps = ''params''"
    and cov: "covers space S 0 (tokens_of t)"
  shows "\<exists>m. create_map_sig t S = Inr m
           \<and> get_mapsig_key m = tok_value fk @ ''('' @ concat (kv ps) @ '')->'' @ concat (kv ty)"
proof -
  let ?f = create_map_sig_emit_fn
  let ?fn = "Tree ''fnname'' [Token fk]"
  from label_tree [OF ty] obtain tcs where tyT: "ty = Tree ''type'' tcs" by (auto simp: rule_names_def)
  from label_tree [OF ps] obtain pcs where psT: "ps = Tree ''params'' pcs" by (auto simp: rule_names_def)
  have tc: "typed_child t (Suc 0) ''fnname'' = Inr ?fn" "typed_child t 3 ''params'' = Inr ps"
    "typed_child t 0 ''type'' = Inr ty"
    by (simp_all add: typed_child_def t tyT psT)
  have le: "\<forall>n. ?f n \<le> 0" by (rule map_sig_emit_fn_le)
  have tl_ty: "type_like ty" and tl_ps: "type_like ps"
    using type_like_conforms [OF ty(1)] type_like_conforms [OF ps(1)] ty(2) ps(2) by simp_all
  have toks: "tokens_of t = tokens_of ty @ (fk # lp # tokens_of ps @ [rp])" by (simp add: t)
  from cov have c_ty: "covers space S 0 (tokens_of ty @ (fk # lp # tokens_of ps @ [rp]))"
    by (simp only: toks)
  from covers_append [OF c_ty]
  have c_fn: "covers space S (endpos 0 (tokens_of ty)) (tokens_of ?fn @ (lp # tokens_of ps @ [rp]))"
    by simp
  then have c_ps: "covers space S (end_column lp - 1) (tokens_of ps @ [rp])" by simp
  have kfn: "kept ?f ?fn = [fk]" using fk(1) by (simp add: create_map_sig_emit_fn_def)
  have vfn: "\<forall>k\<in>set (kept ?f ?fn). CHR '' '' \<notin> set (tok_value k)"
    using name_piece_no_space [OF fk(2)] by (simp add: kfn)
  have nofn: "no_empty ?fn" by simp
  have init: "sref (StringEmit_init S) = S"
    "pos (StringEmit_init S) < 0 \<or> pos (StringEmit_init S) = endpos 0 (tokens_of ty)"
    "sval (StringEmit_init S) = []"
    by (simp_all add: StringEmit_init_def)
  from emit_kept(1) [OF le nofn c_fn init(1) init(2) vfn]
  obtain e1 where e1: "emit_string ?fn (StringEmit_init S) ?f = Inr e1" "sref e1 = S"
    and s1: "filter (\<lambda>c. c \<noteq> CHR '' '') (sval e1)
       = filter (\<lambda>c. c \<noteq> CHR '' '') (sval (StringEmit_init S))
         @ concat (map tok_value (kept ?f ?fn))"
    by blast
  have v1: "filter (\<lambda>c. c \<noteq> CHR '' '') (sval e1) = tok_value fk"
    unfolding s1 kfn init(3) by simp
  have a1: "sref (append_str e1 ''('') = S"
    "pos (append_str e1 ''('') < 0 \<or> pos (append_str e1 ''('') = end_column lp - 1"
    "filter (\<lambda>c. c \<noteq> CHR '' '') (sval (append_str e1 ''('')) = tok_value fk @ ''(''"
    using e1(2) v1 by (simp_all add: append_str_def)
  from emit_kept(1) [OF le conforms_no_empty [OF ps(1)] c_ps a1(1) a1(2) type_like_no_space [OF tl_ps]]
  obtain e2 where e2: "emit_string ps (append_str e1 ''('') ?f = Inr e2" "sref e2 = S"
    and s2: "filter (\<lambda>c. c \<noteq> CHR '' '') (sval e2)
       = filter (\<lambda>c. c \<noteq> CHR '' '') (sval (append_str e1 ''(''))
         @ concat (map tok_value (kept ?f ps))"
    by blast
  have v2: "filter (\<lambda>c. c \<noteq> CHR '' '') (sval e2) = tok_value fk @ ''('' @ concat (kv ps)"
    unfolding s2 a1(3) kv_def by simp
  have a2: "sref (append_str e2 '') -> '') = S"
    "pos (append_str e2 '') -> '') < 0 \<or> pos (append_str e2 '') -> '') = 0"
    "filter (\<lambda>c. c \<noteq> CHR '' '') (sval (append_str e2 '') -> ''))
       = tok_value fk @ ''('' @ concat (kv ps) @ '')->''"
    using e2(2) v2 by (simp_all add: append_str_def)
  from emit_kept(1) [OF le conforms_no_empty [OF ty(1)] c_ty a2(1) a2(2) type_like_no_space [OF tl_ty]]
  obtain e3 where e3: "emit_string ty (append_str e2 '') -> '') ?f = Inr e3"
    and s3: "filter (\<lambda>c. c \<noteq> CHR '' '') (sval e3)
       = filter (\<lambda>c. c \<noteq> CHR '' '') (sval (append_str e2 '') -> ''))
         @ concat (map tok_value (kept ?f ty))"
    by blast
  have v3: "filter (\<lambda>c. c \<noteq> CHR '' '') (sval e3)
       = tok_value fk @ ''('' @ concat (kv ps) @ '')->'' @ concat (kv ty)"
    unfolding s3 a2(3) kv_def by simp
  show ?thesis
    by (simp add: create_map_sig_def tc e1 e2 e3 v3 get_mapsig_key_filter del: emit_string.simps)
qed



lemma qualifier_kv: "conforms c \<Longrightarrow> is_qualifier c \<Longrightarrow> kv c = []"
proof (cases c)
  case (Token k)
  assume "is_qualifier c"
  with Token show ?thesis by (auto simp: is_qualifier_def kv_Token)
next
  case (Tree d cs)
  assume "conforms c" "is_qualifier c"
  with Tree have "label c = ''refspec''" by (simp add: is_qualifier_def label_def)
  with \<open>conforms c\<close> show ?thesis by (rule refspec_node(1))
qed

lemma concat_filter_empty:
  "\<forall>c\<in>set cs. \<not> P c \<longrightarrow> g c = [] \<Longrightarrow> concat (map g (filter P cs)) = concat (map g cs)"
  by (induction cs) simp_all

lemma concat_map_same:
  "\<forall>c\<in>set cs. g (h c) = g c \<Longrightarrow>
     concat (map g (map h (filter P cs))) = concat (map g (filter P cs))"
  by (induction cs) simp_all

lemma kv_erase: "conforms n \<Longrightarrow> kv (erase n) = kv n"
proof (induction n)
  case (Token k)
  show ?case by (simp add: kv_Token)
next
  case (Tree d cs)
  then have conf: "\<forall>c\<in>set cs. conforms c" by (simp add: list_all_iff)
  with Tree.IH have IH: "\<forall>c\<in>set cs. kv (erase c) = kv c" by simp
  have "concat (map kv (map erase (filter (\<lambda>c. \<not> is_qualifier c) cs)))
        = concat (map kv (filter (\<lambda>c. \<not> is_qualifier c) cs))"
    using IH by (rule concat_map_same)
  also have "\<dots> = concat (map kv cs)"
    using conf qualifier_kv by (intro concat_filter_empty) auto
  finally show ?case by (simp add: kv_Tree)
qed

lemma inner_piece_cases: "inner_piece v \<Longrightarrow> name_piece v \<or> punct_piece v"
  by (auto simp: inner_piece_def punct_piece_def tname_char_def cname_char_def)

lemma split_at_sep:
  "s \<notin> set A \<Longrightarrow> s \<notin> set B \<Longrightarrow> A @ s # X = B @ s # Y \<Longrightarrow> A = B \<and> X = Y"
proof (induction A arbitrary: B)
  case Nil
  then show ?case by (cases B) auto
next
  case (Cons a A)
  then show ?case by (cases B) auto
qed

lemma sig_key:
  assumes "derives space S t"
  shows "\<exists>ty fk lp ps rp.
           t = Tree ''start'' [ty, Tree ''fnname'' [Token fk], Token lp, ps, Token rp]
           \<and> conforms ty \<and> label ty = ''type'' \<and> tok_type fk = ''CNAME''
           \<and> name_piece (tok_value fk) \<and> tok_type lp \<notin> set named_terminals
           \<and> conforms ps \<and> label ps = ''params'' \<and> tok_type rp \<notin> set named_terminals
           \<and> canonical_key t S
               = Inr (tok_value fk @ ''('' @ concat (kv ps) @ '')->'' @ concat (kv ty))"
proof -
  from assms have c: "conforms t" "label t = ''start''" and cov: "covers space S 0 (tokens_of t)"
    by (simp_all add: derives_def)
  from sig_parts [OF c] obtain ty fk lp ps rp where
    p: "t = Tree ''start'' [ty, Tree ''fnname'' [Token fk], Token lp, ps, Token rp]"
      "conforms ty" "label ty = ''type''" "tok_type fk = ''CNAME''" "name_piece (tok_value fk)"
      "tok_type lp \<notin> set named_terminals" "conforms ps" "label ps = ''params''"
      "tok_type rp \<notin> set named_terminals"
    by blast
  from create_map_sig_key [OF p(1) p(2) p(3) p(4) p(5) p(7) p(8) cov]
  have "canonical_key t S
          = Inr (tok_value fk @ ''('' @ concat (kv ps) @ '')->'' @ concat (kv ty))"
    by (auto simp: canonical_key_def)
  with p show ?thesis by blast
qed

lemma type_label_not_qualifier: "conforms n \<Longrightarrow> label n = ''type'' \<or> label n = ''params'' \<Longrightarrow> \<not> is_qualifier n"
  using label_tree [of n "label n"] by (auto simp: is_qualifier_def rule_names_def)

lemma anonymous_not_qualifier: "tok_type k \<notin> set named_terminals \<Longrightarrow> \<not> is_qualifier (Token k)"
  by (auto simp: is_qualifier_def named_terminals_def)



section \<open>The canonical map key\<close>

text \<open>
  C1, as the code has it.  For every well-formed signature whose white space is made of
  space characters, the canonical key exists, it is the same for two signatures whose
  trees are equal once positions, \<open>const\<close> qualifiers and reference and pointer
  markers are removed, and two signatures with the same canonical key have the same type
  names in the same order.
\<close>

theorem map_key_invariance:
  assumes "derives space S1 t1" and "derives space S2 t2"
  shows "(\<exists>k. canonical_key t1 S1 = Inr k)
         \<and> (erase t1 = erase t2 \<longrightarrow> canonical_key t1 S1 = canonical_key t2 S2)
         \<and> (canonical_key t1 S1 = canonical_key t2 S2 \<longrightarrow> type_names t1 = type_names t2)"
proof -
  from sig_key [OF assms(1)] obtain ty1 fk1 lp1 ps1 rp1 where
    p1: "t1 = Tree ''start'' [ty1, Tree ''fnname'' [Token fk1], Token lp1, ps1, Token rp1]"
      "conforms ty1" "label ty1 = ''type''" "tok_type fk1 = ''CNAME''" "name_piece (tok_value fk1)"
      "tok_type lp1 \<notin> set named_terminals" "conforms ps1" "label ps1 = ''params''"
      "tok_type rp1 \<notin> set named_terminals"
    and k1: "canonical_key t1 S1
               = Inr (tok_value fk1 @ ''('' @ concat (kv ps1) @ '')->'' @ concat (kv ty1))"
    by blast
  from sig_key [OF assms(2)] obtain ty2 fk2 lp2 ps2 rp2 where
    p2: "t2 = Tree ''start'' [ty2, Tree ''fnname'' [Token fk2], Token lp2, ps2, Token rp2]"
      "conforms ty2" "label ty2 = ''type''" "tok_type fk2 = ''CNAME''" "name_piece (tok_value fk2)"
      "tok_type lp2 \<notin> set named_terminals" "conforms ps2" "label ps2 = ''params''"
      "tok_type rp2 \<notin> set named_terminals"
    and k2: "canonical_key t2 S2
               = Inr (tok_value fk2 @ ''('' @ concat (kv ps2) @ '')->'' @ concat (kv ty2))"
    by blast
  have nq1: "\<not> is_qualifier ty1" "\<not> is_qualifier ps1" "\<not> is_qualifier (Token lp1)"
    "\<not> is_qualifier (Token rp1)"
    using type_label_not_qualifier [OF p1(2)] type_label_not_qualifier [OF p1(7)] p1(3,8)
      anonymous_not_qualifier [OF p1(6)] anonymous_not_qualifier [OF p1(9)] by simp_all
  have nq2: "\<not> is_qualifier ty2" "\<not> is_qualifier ps2" "\<not> is_qualifier (Token lp2)"
    "\<not> is_qualifier (Token rp2)"
    using type_label_not_qualifier [OF p2(2)] type_label_not_qualifier [OF p2(7)] p2(3,8)
      anonymous_not_qualifier [OF p2(6)] anonymous_not_qualifier [OF p2(9)] by simp_all
  have inv: "canonical_key t1 S1 = canonical_key t2 S2" if e: "erase t1 = erase t2"
  proof -
    from e have "erase ty1 = erase ty2" "erase ps1 = erase ps2"
      and f: "erase (Token fk1) = erase (Token fk2)"
      using nq1 nq2 p1(4) p2(4) by (simp_all add: p1(1) p2(1) is_qualifier_def)
    from f have "tok_value (fk1\<lparr>column := 0, end_column := 0\<rparr>)
                 = tok_value (fk2\<lparr>column := 0, end_column := 0\<rparr>)"
      by (simp only: erase.simps node.inject)
    then have "tok_value fk1 = tok_value fk2" by simp
    note parts = \<open>erase ty1 = erase ty2\<close> \<open>erase ps1 = erase ps2\<close> this
    from parts
    have "erase ty1 = erase ty2" "erase ps1 = erase ps2" "tok_value fk1 = tok_value fk2" .
    then have "kv ty1 = kv ty2" "kv ps1 = kv ps2" "tok_value fk1 = tok_value fk2"
      using kv_erase [OF p1(2)] kv_erase [OF p2(2)] kv_erase [OF p1(7)] kv_erase [OF p2(7)]
      by simp_all
    then show ?thesis by (simp add: k1 k2)
  qed
  have sens: "type_names t1 = type_names t2" if e: "canonical_key t1 S1 = canonical_key t2 S2"
  proof -
    let ?L1 = "[tok_value fk1] @ ''('' # kv ps1 @ '')'' # ''-'' # ''>'' # kv ty1"
    let ?L2 = "[tok_value fk2] @ ''('' # kv ps2 @ '')'' # ''-'' # ''>'' # kv ty2"
    have tl: "type_like ty1" "type_like ps1" "type_like ty2" "type_like ps2"
      using type_like_conforms [OF p1(2)] type_like_conforms [OF p1(7)]
        type_like_conforms [OF p2(2)] type_like_conforms [OF p2(7)] p1(3,8) p2(3,8) by simp_all
    have ok: "list_all (\<lambda>v. name_piece v \<or> punct_piece v) L" "no_adjacent L"
      if "L = [v] @ ''('' # P @ '')'' # ''-'' # ''>'' # R" "name_piece v" "good P" "good R"
      for L v P R
    proof -
      have lits: "punct_piece ''(''" "punct_piece '')''" "punct_piece ''-''" "punct_piece ''>''"
        by (simp_all add: punct_piece_def tname_char_def cname_char_def)
      from that(3,4) have "list_all (\<lambda>v. name_piece v \<or> punct_piece v) P"
        "list_all (\<lambda>v. name_piece v \<or> punct_piece v) R"
        using inner_piece_cases by (auto simp: good_def list_all_iff)
      with that(1,2) lits show "list_all (\<lambda>v. name_piece v \<or> punct_piece v) L" by simp
      have n: "\<not> name_piece ''(''" "\<not> name_piece '')''" "\<not> name_piece ''-''"
        "\<not> name_piece ''>''"
        using lits punct_not_name by blast+
      have a1: "no_adjacent (''>'' # R)"
        using no_adjacent_Cons [of R "''>''"] that(4) n(4) by (simp add: good_def)
      have a2: "no_adjacent (''-'' # ''>'' # R)"
        using no_adjacent_Cons [OF a1 n(3)] .
      have a3: "no_adjacent (P @ '')'' # ''-'' # ''>'' # R)"
        using no_adjacent_sep [OF _ a2 n(2), of P] that(3) by (simp add: good_def)
      have "no_adjacent ([v] @ ''('' # P @ '')'' # ''-'' # ''>'' # R)"
        using no_adjacent_sep [OF _ a3 n(1), of "[v]"] by simp
      with that(1) show "no_adjacent L" by simp
    qed
    have c1: "concat ?L1 = tok_value fk1 @ ''('' @ concat (kv ps1) @ '')->'' @ concat (kv ty1)"
      and c2: "concat ?L2 = tok_value fk2 @ ''('' @ concat (kv ps2) @ '')->'' @ concat (kv ty2)"
      by simp_all
    from e k1 k2 c1 c2 have "concat ?L1 = concat ?L2" by simp
    then have "pieces_of (concat ?L1) = pieces_of (concat ?L2)" by simp
    moreover have "pieces_of (concat ?L1) = ?L1"
      using ok [of ?L1 "tok_value fk1" "kv ps1" "kv ty1"] p1(5) tl
      by (intro pieces_of_concat) (simp_all add: type_like_def)
    moreover have "pieces_of (concat ?L2) = ?L2"
      using ok [of ?L2 "tok_value fk2" "kv ps2" "kv ty2"] p2(5) tl
      by (intro pieces_of_concat) (simp_all add: type_like_def)
    ultimately have L: "?L1 = ?L2" by simp
    have "\<not> inner_piece '')''"
      by (simp add: inner_piece_def name_piece_def tname_char_def cname_char_def)
    then have np: "'')'' \<notin> set (kv ps1)" "'')'' \<notin> set (kv ps2)"
      using tl by (auto simp: type_like_def good_def list_all_iff)
    from L have "kv ps1 @ '')'' # (''-'' # ''>'' # kv ty1) = kv ps2 @ '')'' # (''-'' # ''>'' # kv ty2)"
      by simp
    with np have "kv ps1 = kv ps2 \<and> ''-'' # ''>'' # kv ty1 = ''-'' # ''>'' # kv ty2"
      by (intro split_at_sep [of "'')''"])
    then have "kv ps1 = kv ps2 \<and> kv ty1 = kv ty2" by simp
    moreover have "type_names t1 = type_names ty1 @ type_names ps1"
      "type_names t2 = type_names ty2 @ type_names ps2"
      using p1(4,6,9) p2(4,6,9)
      by (auto simp: p1(1) p2(1) type_names_Tree type_names_Token named_terminals_def)
    ultimately show ?thesis
      using tl by (simp add: type_like_def)
  qed
  from k1 inv sens show ?thesis by blast
qed


lemma sig_f_const_derives:
  "derives space sig_f sig_f_tree" "derives space sig_f_const sig_f_const_tree"
  by (simp_all add: derives_def sig_f_tree_def sig_f_def sig_f_const_tree_def sig_f_const_def
      tk_def label_def shape_def named_terminals_def token_ok_def tname_char_def cname_char_def
      py_slice_def space_def)

theorem map_key_invariance_witness:
  "derives space sig_f sig_f_tree \<and> derives space sig_f_const sig_f_const_tree
   \<and> erase sig_f_tree = erase sig_f_const_tree
   \<and> canonical_key sig_f_tree sig_f = canonical_key sig_f_const_tree sig_f_const
   \<and> type_names sig_f_tree = type_names sig_f_const_tree"
proof -
  have "erase sig_f_tree = erase sig_f_const_tree"
    by (simp add: sig_f_tree_def sig_f_const_tree_def tk_def is_qualifier_def)
  with map_key_invariance [OF sig_f_const_derives] show ?thesis
    by (simp add: sig_f_const_derives)
qed

lemma sig_ab_parse:
  "parse_of (sig_ab []) (sig_ab_tree 0)" "parse_of (sig_ab [CHR 0x09]) (sig_ab_tree 1)"
  by (simp_all add: parse_of_def derives_def sig_ab_tree_def sig_ab_def
      tk_def label_def shape_def named_terminals_def token_ok_def tname_char_def cname_char_def
      py_slice_def lark_ws_def)

lemma sig_ab_keys:
  "canonical_key (sig_ab_tree 0) (sig_ab []) = Inr ''f(Tensor,Tensor)->Tensor''"
  "canonical_key (sig_ab_tree 1) (sig_ab [CHR 0x09])
     = Inr (''f(Tensor,'' @ [CHR 0x09] @ ''Tensor)->Tensor'')"
  by (simp_all add: canonical_key_def create_map_sig_def create_map_sig_emit_fn_def
      get_mapsig_key_filter sig_ab_tree_def sig_ab_def tk_def typed_child_def list_get_def
      StringEmit_init_def advance_def skip_def append_str_def py_slice_def)

text \<open>
  C1 as stated fails for white space other than the space character: the signatures
  \<open>Tensor f(Tensor a,Tensor b)\<close> and the same with a tab after the comma differ only
  in white space between tokens, and their canonical keys differ, since only spaces are
  removed from the map key.
\<close>

theorem map_key_counterexample:
  "parse_of (sig_ab []) (sig_ab_tree 0) \<and> parse_of (sig_ab [CHR 0x09]) (sig_ab_tree 1)
   \<and> erase (sig_ab_tree 0) = erase (sig_ab_tree 1)
   \<and> canonical_key (sig_ab_tree 0) (sig_ab []) \<noteq> canonical_key (sig_ab_tree 1) (sig_ab [CHR 0x09])"
proof -
  have "erase (sig_ab_tree 0) = erase (sig_ab_tree 1)"
    by (simp add: sig_ab_tree_def tk_def is_qualifier_def)
  then show ?thesis by (simp add: sig_ab_parse sig_ab_keys)
qed


section \<open>Searching a whole word\<close>


lemma search_word_iff:
  assumes "w \<noteq> []"
  shows "search_word w prev s \<longleftrightarrow>
           (\<exists>a b. s = a @ w @ b \<and> (if a = [] then \<not> prev else \<not> isword (last a))
                  \<and> (b = [] \<or> \<not> isword (hd b)))"
proof (induction s arbitrary: prev)
  case Nil
  with assms show ?case by simp
next
  case (Cons c cs)
  let ?R = "\<lambda>p s. \<exists>a b. s = a @ w @ b \<and> (if a = [] then \<not> p else \<not> isword (last a))
                  \<and> (b = [] \<or> \<not> isword (hd b))"
  have here: "(\<not> prev \<and> startswith (c # cs) w
               \<and> (case drop (length w) (c # cs) of [] \<Rightarrow> True | d # _ \<Rightarrow> \<not> isword d))
              \<longleftrightarrow> (\<exists>b. c # cs = w @ b \<and> \<not> prev \<and> (b = [] \<or> \<not> isword (hd b)))"
  proof (cases "startswith (c # cs) w")
    case True
    then obtain b where b: "c # cs = w @ b" by (auto simp: startswith_iff)
    then have d: "drop (length w) (c # cs) = b" by (metis append_eq_conv_conj)
    have "(\<exists>b'. c # cs = w @ b' \<and> \<not> prev \<and> (b' = [] \<or> \<not> isword (hd b')))
            \<longleftrightarrow> (\<not> prev \<and> (b = [] \<or> \<not> isword (hd b)))"
      unfolding b by auto
    moreover have "(case b of [] \<Rightarrow> True | d # _ \<Rightarrow> \<not> isword d) \<longleftrightarrow> (b = [] \<or> \<not> isword (hd b))"
      by (cases b) auto
    ultimately show ?thesis using True by (simp only: d) simp
  next
    case False
    then show ?thesis by (auto simp: startswith_iff)
  qed
  have later: "?R (isword c) cs \<longleftrightarrow> (\<exists>a b. a \<noteq> [] \<and> c # cs = a @ w @ b \<and> \<not> isword (last a)
                  \<and> (b = [] \<or> \<not> isword (hd b)))"
  proof
    assume "?R (isword c) cs"
    then obtain a b where "cs = a @ w @ b" "if a = [] then \<not> isword c else \<not> isword (last a)"
      "b = [] \<or> \<not> isword (hd b)" by blast
    then have "c # a \<noteq> [] \<and> c # cs = (c # a) @ w @ b \<and> \<not> isword (last (c # a))
                 \<and> (b = [] \<or> \<not> isword (hd b))"
      by (auto split: if_splits)
    then show "\<exists>a b. a \<noteq> [] \<and> c # cs = a @ w @ b \<and> \<not> isword (last a)
                  \<and> (b = [] \<or> \<not> isword (hd b))" by blast
  next
    assume "\<exists>a b. a \<noteq> [] \<and> c # cs = a @ w @ b \<and> \<not> isword (last a)
                  \<and> (b = [] \<or> \<not> isword (hd b))"
    then obtain a b where a: "a \<noteq> []" "c # cs = a @ w @ b" "\<not> isword (last a)"
      "b = [] \<or> \<not> isword (hd b)" by blast
    then obtain a' where a': "a = c # a'" by (cases a) auto
    with a have "cs = a' @ w @ b \<and> (if a' = [] then \<not> isword c else \<not> isword (last a'))
                 \<and> (b = [] \<or> \<not> isword (hd b))"
      by (auto split: if_splits)
    then show "?R (isword c) cs" by blast
  qed
  have "search_word w prev (c # cs) \<longleftrightarrow>
          (\<exists>b. c # cs = w @ b \<and> \<not> prev \<and> (b = [] \<or> \<not> isword (hd b)))
          \<or> (\<exists>a b. a \<noteq> [] \<and> c # cs = a @ w @ b \<and> \<not> isword (last a)
                  \<and> (b = [] \<or> \<not> isword (hd b)))"
    using here later Cons.IH [of "isword c"] by simp
  also have "\<dots> \<longleftrightarrow> ?R prev (c # cs)"
  proof
    assume "(\<exists>b. c # cs = w @ b \<and> \<not> prev \<and> (b = [] \<or> \<not> isword (hd b)))
          \<or> (\<exists>a b. a \<noteq> [] \<and> c # cs = a @ w @ b \<and> \<not> isword (last a)
                  \<and> (b = [] \<or> \<not> isword (hd b)))"
    then show "?R prev (c # cs)"
    proof
      assume "\<exists>b. c # cs = w @ b \<and> \<not> prev \<and> (b = [] \<or> \<not> isword (hd b))"
      then obtain b where "c # cs = [] @ w @ b" "\<not> prev" "b = [] \<or> \<not> isword (hd b)" by auto
      then show ?thesis by (intro exI [of _ "[]"] exI [of _ b]) simp
    next
      assume "\<exists>a b. a \<noteq> [] \<and> c # cs = a @ w @ b \<and> \<not> isword (last a)
                  \<and> (b = [] \<or> \<not> isword (hd b))"
      then obtain a b where "a \<noteq> []" "c # cs = a @ w @ b" "\<not> isword (last a)"
        "b = [] \<or> \<not> isword (hd b)" by blast
      then show ?thesis by (intro exI [of _ a] exI [of _ b]) simp
    qed
  next
    assume "?R prev (c # cs)"
    then obtain a b where r: "c # cs = a @ w @ b" "if a = [] then \<not> prev else \<not> isword (last a)"
      "b = [] \<or> \<not> isword (hd b)" by blast
    show "(\<exists>b. c # cs = w @ b \<and> \<not> prev \<and> (b = [] \<or> \<not> isword (hd b)))
          \<or> (\<exists>a b. a \<noteq> [] \<and> c # cs = a @ w @ b \<and> \<not> isword (last a)
                  \<and> (b = [] \<or> \<not> isword (hd b)))"
    proof (cases "a = []")
      case True
      with r show ?thesis by auto
    next
      case False
      with r have "a \<noteq> [] \<and> c # cs = a @ w @ b \<and> \<not> isword (last a)
                  \<and> (b = [] \<or> \<not> isword (hd b))" by simp
      then show ?thesis by blast
    qed
  qed
  finally show ?case .
qed

lemma search_word_occurs: "w \<noteq> [] \<Longrightarrow> search_word w False s = word_occurs w s"
proof -
  assume w: "w \<noteq> []"
  have "(if a = [] then \<not> False else \<not> isword (last a)) = (a = [] \<or> \<not> isword (last a))"
    for a :: string
    by simp
  then show ?thesis
    unfolding search_word_iff [OF w] word_occurs_def by (simp only:)
qed


lemma replace_keeps_prefix:
  "old \<noteq> [] \<Longrightarrow> hd old \<notin> set p \<Longrightarrow> py_replace old new (p @ X) = p @ py_replace old new X"
proof (induction p)
  case Nil
  show ?case by simp
next
  case (Cons x p)
  then have "\<not> startswith (x # p @ X) old"
    by (cases old) (auto simp: startswith_def)
  with Cons show ?case by simp
qed

lemma replace_prefix_back:
  assumes "old \<noteq> []" "new \<noteq> []" "hd new \<notin> set p"
  shows "startswith (py_replace old new s) p \<Longrightarrow> startswith s p"
  using assms(3)
proof (induction p arbitrary: s)
  case Nil
  show ?case by (simp add: startswith_def)
next
  case (Cons x p)
  from Cons.prems(1) obtain c cs where s: "s = c # cs"
    by (cases s) (auto simp: startswith_def)
  show ?case
  proof (cases "startswith (c # cs) old")
    case True
    with assms(1) have "py_replace old new s = new @ py_replace old new (drop (length old) s)"
      by (simp add: s)
    with Cons.prems assms(2) show ?thesis
      by (cases new) (auto simp: startswith_def)
  next
    case False
    then have r: "py_replace old new s = c # py_replace old new cs" by (simp add: s)
    with Cons.prems(1) have "x = c" "startswith (py_replace old new cs) p"
      by (simp_all add: startswith_def)
    with Cons.IH [of cs] Cons.prems(2) show ?thesis by (simp add: s startswith_def)
  qed
qed

lemma replace_head_class:
  assumes "old \<noteq> []" "new \<noteq> []" "isword (hd old) = isword (hd new)"
  shows "(py_replace old new X = [] \<longleftrightarrow> X = [])
         \<and> (X \<noteq> [] \<longrightarrow> isword (hd (py_replace old new X)) = isword (hd X))"
proof (cases X)
  case Nil
  then show ?thesis by simp
next
  case (Cons c cs)
  show ?thesis
  proof (cases "startswith (c # cs) old")
    case True
    then have "hd old = c" using assms(1) by (cases old) (auto simp: startswith_def)
    with True assms show ?thesis by (cases new) (simp_all add: Cons)
  next
    case False
    then show ?thesis by (simp add: Cons)
  qed
qed

lemma search_word_skip:
  "hd w \<notin> set p \<Longrightarrow> w \<noteq> [] \<Longrightarrow> p \<noteq> [] \<Longrightarrow>
     search_word w prev (p @ X) = search_word w (isword (last p)) X"
proof (induction p arbitrary: prev)
  case Nil
  then show ?case by simp
next
  case (Cons x p)
  then have n: "\<not> startswith (x # p @ X) w" by (cases w) (auto simp: startswith_def)
  show ?case
  proof (cases "p = []")
    case True
    with n show ?thesis by simp
  next
    case False
    with Cons n show ?thesis by simp
  qed
qed


lemma word_here_replace:
  assumes "old \<noteq> []" "new \<noteq> []" "isword (hd old) = isword (hd new)"
    "hd old \<notin> set w" "hd new \<notin> set w"
  shows "word_here w (py_replace old new s) = word_here w s"
proof (cases "startswith s w")
  case True
  then obtain X where s: "s = w @ X" by (auto simp: startswith_iff)
  have r: "py_replace old new s = w @ py_replace old new X"
    unfolding s using assms(1,4) by (rule replace_keeps_prefix)
  have h1: "word_here w s = (case X of [] \<Rightarrow> True | d # _ \<Rightarrow> \<not> isword d)"
    by (simp add: word_here_def s startswith_def)
  have h2: "word_here w (py_replace old new s)
              = (case py_replace old new X of [] \<Rightarrow> True | d # _ \<Rightarrow> \<not> isword d)"
    by (simp add: word_here_def r startswith_def)
  from replace_head_class [OF assms(1,2,3), of X] show ?thesis
    unfolding h1 h2 by (cases X; cases "py_replace old new X") auto
next
  case False
  with replace_prefix_back [OF assms(1,2,5), of s] show ?thesis by (auto simp: word_here_def)
qed


lemma search_word_Cons:
  "search_word w prev (c # cs) = ((\<not> prev \<and> word_here w (c # cs)) \<or> search_word w (isword c) cs)"
  by (simp add: word_here_def)

lemma search_word_replace:
  assumes "old \<noteq> []" "new \<noteq> []" "w \<noteq> []"
    and "isword (hd old) = isword (hd new)" "isword (last old) = isword (last new)"
    and "hd old \<notin> set w" "hd new \<notin> set w" "hd w \<notin> set old" "hd w \<notin> set new"
  shows "search_word w prev (py_replace old new s) = search_word w prev s"
proof (induction s arbitrary: prev rule: length_induct)
  case (1 s)
  show ?case
  proof (cases s)
    case Nil
    then show ?thesis by simp
  next
    case (Cons c cs)
    show ?thesis
    proof (cases "startswith (c # cs) old")
      case True
      then obtain r where r: "c # cs = old @ r" by (auto simp: startswith_iff)
      then have d: "drop (length old) (c # cs) = r" by (metis append_eq_conv_conj)
      have "length s = length old + length r"
        using arg_cong [OF r, of length] by (simp add: Cons)
      then have "length r < length s" using assms(1) by simp
      with 1 have IH: "search_word w p (py_replace old new r) = search_word w p r" for p
        by blast
      have "py_replace old new s = new @ py_replace old new r"
        using True assms(1) by (simp add: Cons d del: drop_Suc_Cons)
      then have "search_word w prev (py_replace old new s)
                   = search_word w (isword (last new)) r"
        using search_word_skip [OF assms(9,3,2)] IH by simp
      moreover have "search_word w prev s = search_word w (isword (last old)) r"
        using search_word_skip [OF assms(8,3,1), of prev r] by (simp add: Cons r)
      ultimately show ?thesis using assms(5) by simp
    next
      case False
      then have rep: "py_replace old new (c # cs) = c # py_replace old new cs" by simp
      have h: "word_here w (c # py_replace old new cs) = word_here w (c # cs)"
        using word_here_replace [OF assms(1,2,4,6,7), of "c # cs"] by (simp only: rep)
      have sw: "search_word w p (py_replace old new cs) = search_word w p cs" for p
        using 1 by (simp add: Cons)
      show ?thesis
        unfolding Cons by (simp only: rep search_word_Cons h sw)
    qed
  qed
qed

lemma is_tensor_api_iff:
  "fst (is_tensor_api fndef) = word_occurs ''Tensor'' (py_replace ''at::'' [] fndef)"
proof -
  have "search_word ''Tensor'' False
          (py_replace ''c10::Device'' ''Device'' (py_replace ''at::'' [] fndef))
        = search_word ''Tensor'' False (py_replace ''at::'' [] fndef)"
    by (rule search_word_replace) (simp_all add: isword_def)
  then show ?thesis
    by (simp add: is_tensor_api_def Let_def search_word_occurs del: search_word.simps)
qed




section \<open>Declarations that do not parse\<close>

lemma create_funcdef_cpp_sig: "create_funcdef lib fndef jdata = Inr fd \<Longrightarrow> cpp_sig fd = fndef"
  by (auto simp: create_funcdef_def rbind_def split: sum.splits option.splits)

lemma extract_line_eq:
  "extract_line lib (fs, es, os) line =
     (fs @ line_functions lib line, es @ line_errors lib line,
      os @ map (\<lambda>(f, e). Error_parsing f e) (line_errors lib line))"
  by (simp add: extract_line_def line_functions_def line_errors_def
      split: option.splits sum.splits prod.splits)

lemma extract_fold:
  "foldl (extract_line lib) (fs, es, os) lines =
     (fs @ concat (map (line_functions lib) lines), es @ concat (map (line_errors lib) lines),
      os @ map (\<lambda>(f, e). Error_parsing f e) (concat (map (line_errors lib) lines)))"
  by (induction lines arbitrary: fs es os) (simp_all add: extract_line_eq)

lemma extract_functions_eq:
  "extract_functions lib lines =
     (concat (map (line_functions lib) lines), concat (map (line_errors lib) lines),
      map (\<lambda>(f, e). Error_parsing f e) (concat (map (line_errors lib) lines)))"
  by (simp add: extract_functions_def extract_fold)

lemma line_functions_parsed:
  "fd \<in> set (line_functions lib line) \<Longrightarrow> \<exists>t. XPARSER_parse lib (cpp_sig fd) = Inr t"
proof -
  assume "fd \<in> set (line_functions lib line)"
  then obtain fndef jdata where
    r: "rbind (XPARSER_parse lib fndef) (\<lambda>_. create_funcdef lib fndef jdata) = Inr fd"
    by (auto simp: line_functions_def split: option.splits sum.splits prod.splits)
  show ?thesis
  proof (cases "XPARSER_parse lib fndef")
    case (Inl e)
    with r show ?thesis by simp
  next
    case (Inr t)
    with r have "create_funcdef lib fndef jdata = Inr fd" by simp
    then have "cpp_sig fd = fndef" by (rule create_funcdef_cpp_sig)
    with Inr show ?thesis by simp
  qed
qed

lemma line_errors_tensor:
  "(fndef, e) \<in> set (line_errors lib line) \<Longrightarrow> fst (is_tensor_api fndef)"
  by (auto simp: line_errors_def split: option.splits sum.splits prod.splits if_splits)

lemma line_errors_failed:
  "match_declaration line = Some (fndef, jdata) \<Longrightarrow> XPARSER_parse lib fndef = Inl e \<Longrightarrow>
     fst (is_tensor_api fndef) \<Longrightarrow> line_errors lib line = [(fndef, e)]"
  by (simp add: line_errors_def)

text \<open>
  C9, as the code has it.  Let a line of the declaration source hold a signature that
  the parser refuses.  The signature is collected in the errors, with the parser's
  exception, exactly when \<open>Tensor\<close> occurs as a whole word in the signature from
  which every \<open>at::\<close> has been removed (the rewriting of \<open>c10::Device\<close> that
  \<open>is_tensor_api\<close> also does changes nothing to this); it never gives a function
  entry; the messages printed are those of the errors collected, so that a signature
  that is not collected leaves no trace.  Once every line has been read, the run prints
  the numbers of functions and errors, and is aborted by the assertion if any error was
  collected.
\<close>

theorem parse_errors_collected:
  assumes "extract_functions lib typedef = (fndefs, errors, out)"
    and "line \<in> set typedef"
    and "match_declaration line = Some (fndef, jdata)"
    and "XPARSER_parse lib fndef = Inl e"
  shows "((fndef, e) \<in> set errors \<longleftrightarrow> word_occurs ''Tensor'' (py_replace ''at::'' [] fndef))
         \<and> (fndef \<in> fst ` set errors \<longleftrightarrow> word_occurs ''Tensor'' (py_replace ''at::'' [] fndef))
         \<and> fndef \<notin> cpp_sig ` set fndefs
         \<and> out = map (\<lambda>(f, e). Error_parsing f e) errors
         \<and> (errors \<noteq> [] \<longrightarrow>
              generate lib gen xlatype typedef functions
                = (out @ [Extracted (length fndefs) (length errors)], Inl AssertionError))"
proof -
  from assms(1) have fs: "fndefs = concat (map (line_functions lib) typedef)"
    and es: "errors = concat (map (line_errors lib) typedef)"
    and os: "out = map (\<lambda>(f, e). Error_parsing f e) errors"
    by (auto simp: extract_functions_eq)
  have t: "fst (is_tensor_api fndef)" if "(fndef, e') \<in> set errors" for e'
    using that line_errors_tensor by (auto simp: es)
  have c: "(fndef, e) \<in> set errors" if "fst (is_tensor_api fndef)"
    using line_errors_failed [OF assms(3,4) that] assms(2) by (force simp: es)
  have n: "fndef \<notin> cpp_sig ` set fndefs"
  proof
    assume "fndef \<in> cpp_sig ` set fndefs"
    then obtain fd l where "fd \<in> set (line_functions lib l)" "fndef = cpp_sig fd"
      by (auto simp: fs)
    with line_functions_parsed [of fd lib l] assms(4) show False by simp
  qed
  have g: "generate lib gen xlatype typedef functions
             = (out @ [Extracted (length fndefs) (length errors)], Inl AssertionError)"
    if "errors \<noteq> []"
    using that assms(1) by (simp add: generate_def Let_def)
  have i: "fndef \<in> fst ` set errors \<longleftrightarrow> fst (is_tensor_api fndef)"
  proof
    assume "fndef \<in> fst ` set errors"
    then obtain e' where "(fndef, e') \<in> set errors" by auto
    then show "fst (is_tensor_api fndef)" by (rule t)
  next
    assume "fst (is_tensor_api fndef)"
    then have "(fndef, e) \<in> set errors" by (rule c)
    then show "fndef \<in> fst ` set errors" by force
  qed
  from t c have "(fndef, e) \<in> set errors \<longleftrightarrow> fst (is_tensor_api fndef)" by blast
  with i n os g show ?thesis unfolding is_tensor_api_iff by blast
qed

lemma broken_lines:
  "match_declaration broken_tensor_line = Some (''Tensor f(Tensor a'', ''{}'')"
  "match_declaration broken_int_line = Some (''int g(int a'', ''{}'')"
  "match_declaration broken_format_line = Some (''void f(Format::Tensor a'', ''{}'')"
  "match_declaration broken_split_line = Some (''void f(Tat::ensor a'', ''{}'')"
  by (simp_all add: match_declaration_def broken_tensor_line_def broken_int_line_def
      broken_format_line_def broken_split_line_def isspace_def startswith_def)

lemma broken_tensor_api:
  "fst (is_tensor_api ''Tensor f(Tensor a'')" "\<not> fst (is_tensor_api ''int g(int a'')"
  "\<not> fst (is_tensor_api ''void f(Format::Tensor a'')" "fst (is_tensor_api ''void f(Tat::ensor a'')"
  by (simp_all add: is_tensor_api_def startswith_def isword_def)

theorem parse_errors_collected_witness:
  "extract_functions (table_library []) [broken_int_line, broken_tensor_line]
     = ([], [(''Tensor f(Tensor a'', ParseError)], [Error_parsing ''Tensor f(Tensor a'' ParseError])
   \<and> word_occurs ''Tensor'' (py_replace ''at::'' [] ''Tensor f(Tensor a'')
   \<and> generate (table_library []) ''gen.py'' [] [broken_int_line, broken_tensor_line] []
       = ([Error_parsing ''Tensor f(Tensor a'' ParseError, Extracted 0 1], Inl AssertionError)"
proof -
  have p: "XPARSER_parse (table_library []) ''Tensor f(Tensor a'' = Inl ParseError"
    "XPARSER_parse (table_library []) ''int g(int a'' = Inl ParseError"
    by (simp_all add: table_library_def)
  have x: "extract_functions (table_library []) [broken_int_line, broken_tensor_line]
     = ([], [(''Tensor f(Tensor a'', ParseError)], [Error_parsing ''Tensor f(Tensor a'' ParseError])"
    by (simp add: extract_functions_def extract_line_def broken_lines p broken_tensor_api)
  from parse_errors_collected [OF x _ broken_lines(1) p(1), of "''gen.py''" "[]" "[]"] x
  show ?thesis
    by simp
qed

text \<open>
  C9 as stated fails, textual containment being neither necessary nor sufficient.  The
  signature \<open>void f(Format::Tensor a\<close> does not parse and contains \<open>Tensor\<close>, and it
  is dropped: without \<open>at::\<close> it reads \<open>void f(FormTensor a\<close>.  The signature
  \<open>void f(Tat::ensor a\<close> does not parse and does not contain \<open>Tensor\<close>, and it is
  collected: without \<open>at::\<close> it reads \<open>void f(Tensor a\<close>.
\<close>

theorem parse_errors_counterexample:
  "match_declaration broken_format_line = Some (''void f(Format::Tensor a'', ''{}'')
   \<and> XPARSER_parse (table_library []) ''void f(Format::Tensor a'' = Inl ParseError
   \<and> occurs_in ''Tensor'' ''void f(Format::Tensor a''
   \<and> match_declaration broken_split_line = Some (''void f(Tat::ensor a'', ''{}'')
   \<and> XPARSER_parse (table_library []) ''void f(Tat::ensor a'' = Inl ParseError
   \<and> \<not> occurs_in ''Tensor'' ''void f(Tat::ensor a''
   \<and> extract_functions (table_library []) [broken_format_line, broken_split_line]
       = ([], [(''void f(Tat::ensor a'', ParseError)],
          [Error_parsing ''void f(Tat::ensor a'' ParseError])"
proof -
  have p: "XPARSER_parse (table_library []) ''void f(Format::Tensor a'' = Inl ParseError"
    "XPARSER_parse (table_library []) ''void f(Tat::ensor a'' = Inl ParseError"
    by (simp_all add: table_library_def)
  have o: "occurs_in ''Tensor'' ''void f(Format::Tensor a''"
    "\<not> occurs_in ''Tensor'' ''void f(Tat::ensor a''"
    by (simp_all add: py_find_occurs [symmetric] py_find_def startswith_def)
  have x: "extract_functions (table_library []) [broken_format_line, broken_split_line]
       = ([], [(''void f(Tat::ensor a'', ParseError)],
          [Error_parsing ''void f(Tat::ensor a'' ParseError])"
    by (simp add: extract_functions_def extract_line_def broken_lines p broken_tensor_api)
  from p o x show ?thesis by (simp add: broken_lines)
qed



section \<open>Blacklisted functions with an override\<close>



















end
